theory Spec2Isabelle
  imports Complex_Main "HOL-Library.Sublist"
begin

section \<open>Strings of the runtime\<close>

text \<open>
  A JavaScript string is a sequence of UTF-16 code units. The model is \<^typ>\<open>string\<close>, a list
  of \<^typ>\<open>char\<close>: it covers the strings all of whose code units are below 256 (ASCII and
  Latin-1), one \<^typ>\<open>char\<close> per code unit, so that \<open>length\<close> is the \<open>.length\<close> of the source.
\<close>

definition toLowerCase_unit :: "char \<Rightarrow> char" where
  \<comment> \<open>\<open>String.prototype.toLowerCase\<close> on one code unit: A-Z, and the Latin-1 capitals but the
      multiplication sign.\<close>
  "toLowerCase_unit c =
     (let n = (of_char c :: nat)
      in if (65 \<le> n \<and> n \<le> 90) \<or> (192 \<le> n \<and> n \<le> 222 \<and> n \<noteq> 215)
         then char_of (n + 32) else c)"

definition toLowerCase :: "string \<Rightarrow> string" where
  "toLowerCase s = map toLowerCase_unit s"

definition js_includes :: "string \<Rightarrow> string \<Rightarrow> bool" where
  \<comment> \<open>\<open>String.prototype.includes\<close>: whether t occurs in s\<close>
  "js_includes s t = sublist t s"

fun join :: "string \<Rightarrow> string list \<Rightarrow> string" where
  \<comment> \<open>\<open>Array.prototype.join\<close> on an array of strings\<close>
  "join sep [] = []"
| "join sep [x] = x"
| "join sep (x # y # ys) = x @ sep @ join sep (y # ys)"

section \<open>Regular expressions of the source\<close>

text \<open>
  The regular expression literals of the source are written as syntax trees and run by a
  backtracking matcher that lists the possible continuations in the order in which the
  runtime tries them; the first one is the match the runtime reports.
\<close>

definition canonicalize :: "char \<Rightarrow> char" where
  \<comment> \<open>the case folding of the \<open>i\<close> flag (upper-casing of one code unit)\<close>
  "canonicalize c =
     (let n = (of_char c :: nat)
      in if (97 \<le> n \<and> n \<le> 122) \<or> (224 \<le> n \<and> n \<le> 254 \<and> n \<noteq> 247)
         then char_of (n - 32) else c)"

definition unit_eq :: "bool \<Rightarrow> char \<Rightarrow> char \<Rightarrow> bool" where
  "unit_eq ic p c = (if ic then canonicalize p = canonicalize c else p = c)"

definition is_space :: "char \<Rightarrow> bool" where
  \<comment> \<open>\<open>\s\<close>: tab, line feed, vertical tab, form feed, carriage return, space, no-break space\<close>
  "is_space c = ((of_char c :: nat) \<in> {9, 10, 11, 12, 13, 32, 160})"

definition is_line_terminator :: "char \<Rightarrow> bool" where
  "is_line_terminator c = ((of_char c :: nat) \<in> {10, 13})"

definition is_digit :: "char \<Rightarrow> bool" where
  "is_digit c = (48 \<le> (of_char c :: nat) \<and> (of_char c :: nat) \<le> 57)"

datatype cls = Dot | Digit | Space | AnyUnit

fun in_cls :: "cls \<Rightarrow> char \<Rightarrow> bool" where
  "in_cls Dot c = (\<not> is_line_terminator c)"
| "in_cls Digit c = is_digit c"
| "in_cls Space c = is_space c"
| "in_cls AnyUnit c = True"

datatype regex =
    Lit string
  | Cls cls
  | Seq regex regex
  | Alt regex regex
  | Star bool regex
  | Opt bool regex
  | Group regex

text \<open>
  \<open>Lit p\<close> is a run of pattern characters, \<open>Cls\<close> one of \<open>.\<close>, \<open>\d\<close>, \<open>\s\<close> and \<open>[\s\S]\<close>,
  \<open>Star True r\<close> is \<open>r*\<close> and \<open>Star False r\<close> is \<open>r*?\<close>, \<open>Opt True r\<close> is \<open>r?\<close> and
  \<open>Opt False r\<close> is \<open>r??\<close>, and \<open>Group r\<close> is the
  capturing group (each pattern of the source has at most one). A matcher state is the
  rest of the input and the text captured so far. An iteration of \<open>*\<close> or \<open>?\<close> that consumes
  nothing is rejected, as the runtime does.
\<close>

type_synonym mstate = "string \<times> string option"

function rmatch :: "bool \<Rightarrow> regex \<Rightarrow> mstate \<Rightarrow> mstate list" where
  "rmatch ic (Lit p) (s, cap) =
     (if length p \<le> length s \<and> list_all2 (unit_eq ic) p (take (length p) s)
      then [(drop (length p) s, cap)] else [])"
| "rmatch ic (Cls k) (s, cap) =
     (case s of [] \<Rightarrow> [] | c # cs \<Rightarrow> if in_cls k c then [(cs, cap)] else [])"
| "rmatch ic (Seq a b) st = concat (map (rmatch ic b) (rmatch ic a st))"
| "rmatch ic (Alt a b) st = rmatch ic a st @ rmatch ic b st"
| "rmatch ic (Star greedy r) (s, cap) =
     (let again = concat (map (\<lambda>st'. if length (fst st') < length s
                                       then rmatch ic (Star greedy r) st' else [])
                              (rmatch ic r (s, cap)))
      in if greedy then again @ [(s, cap)] else (s, cap) # again)"
| "rmatch ic (Opt greedy r) (s, cap) =
     (let once = filter (\<lambda>st'. length (fst st') < length s) (rmatch ic r (s, cap))
      in if greedy then once @ [(s, cap)] else (s, cap) # once)"
| "rmatch ic (Group r) (s, cap) =
     map (\<lambda>st'. (fst st', Some (take (length s - length (fst st')) s)))
         (rmatch ic r (s, cap))"
  by pat_completeness auto
termination
  by (relation "measures [\<lambda>(ic, r, st). size r, \<lambda>(ic, r, st). length (fst st)]") auto

declare rmatch.simps [simp del]

definition Plus :: "bool \<Rightarrow> regex \<Rightarrow> regex" where
  \<comment> \<open>\<open>r+\<close> and \<open>r+?\<close>: one iteration, then the star\<close>
  "Plus greedy r = Seq r (Star greedy r)"

fun seqs :: "regex list \<Rightarrow> regex" where
  "seqs [] = Lit []"
| "seqs [r] = r"
| "seqs (r # rs) = Seq r (seqs rs)"

record match_result =
  whole :: string
  group1 :: "string option"

fun search :: "bool \<Rightarrow> regex \<Rightarrow> string \<Rightarrow> match_result option" where
  \<comment> \<open>\<open>s.match(re)\<close> for a pattern without the \<open>g\<close> flag: the first start position, from the
      left, at which the pattern matches; \<open>whole\<close> is element 0 of the result and \<open>group1\<close>
      element 1.\<close>
  "search ic r s =
     (case rmatch ic r (s, None) of
        st # _ \<Rightarrow> Some \<lparr>whole = take (length s - length (fst st)) s, group1 = snd st\<rparr>
      | [] \<Rightarrow> (case s of [] \<Rightarrow> None | c # cs \<Rightarrow> search ic r cs))"

declare search.simps [simp del]

text \<open>
  The rests of the input that a star over a character class offers, shortest iteration
  first: the input itself, then one character less as long as the characters belong to the
  class.
\<close>

fun tails_while :: "(char \<Rightarrow> bool) \<Rightarrow> string \<Rightarrow> string list" where
  "tails_while P [] = [[]]"
| "tails_while P (x # xs) = (x # xs) # (if P x then tails_while P xs else [])"


definition question_re :: regex where
  \<comment> \<open>\<open>/Question: (.+?)\n/\<close>\<close>
  "question_re = seqs [Lit ''Question: '', Group (Plus False (Cls Dot)), Lit ''\<newline>'']"

definition context_re :: regex where
  \<comment> \<open>\<open>/Context:\n([\s\S]+?)\n\nQuestion:/\<close>\<close>
  "context_re = seqs [Lit ''Context:\<newline>'', Group (Plus False (Cls AnyUnit)),
                      Lit ''\<newline>\<newline>Question:'']"

definition name_re :: regex where
  \<comment> \<open>\<open>/navdeep\s+singh/i\<close>\<close>
  "name_re = seqs [Lit ''navdeep'', Plus True (Cls Space), Lit ''singh'']"

definition experience_re :: regex where
  \<comment> \<open>\<open>/(\d+)\s*(?:year|yr)s?\s*(?:of\s*)?(?:experience|exp)/i\<close>\<close>
  "experience_re = seqs
     [Group (Plus True (Cls Digit)), Star True (Cls Space), Alt (Lit ''year'') (Lit ''yr''),
      Opt True (Lit ''s''), Star True (Cls Space),
      Opt True (Seq (Lit ''of'') (Star True (Cls Space))),
      Alt (Lit ''experience'') (Lit ''exp'')]"

section \<open>The answer extractor\<close>

datatype exn = TypeError string | SyntaxError string | Error string

fun message :: "exn \<Rightarrow> string" where
  "message (TypeError m) = m"
| "message (SyntaxError m) = m"
| "message (Error m) = m"

definition group_toLowerCase :: "match_result \<Rightarrow> exn + string" where
  \<comment> \<open>\<open>m[1].toLowerCase()\<close>: a group that did not take part is \<open>undefined\<close>, and the call on
      it throws.\<close>
  "group_toLowerCase m =
     (case group1 m of
        None \<Rightarrow> Inl (TypeError ''Cannot read properties of undefined (reading 'toLowerCase')'')
      | Some g \<Rightarrow> Inr (toLowerCase g))"

definition question_field :: "string \<Rightarrow> exn + string" where
  \<comment> \<open>the local \<open>question\<close> of \<open>extractAnswer\<close>\<close>
  "question_field input =
     (case search False question_re input of None \<Rightarrow> Inr [] | Some m \<Rightarrow> group_toLowerCase m)"

definition context_field :: "string \<Rightarrow> exn + string" where
  \<comment> \<open>the local \<open>context\<close> of \<open>extractAnswer\<close>\<close>
  "context_field input =
     (case search False context_re input of None \<Rightarrow> Inr [] | Some m \<Rightarrow> group_toLowerCase m)"

definition name_answer :: "string \<Rightarrow> string" where
  \<comment> \<open>rule (a): \<open>nameMatch ? nameMatch[0] : 'Navdeep Singh'\<close>\<close>
  "name_answer context =
     (case search True name_re context of Some m \<Rightarrow> whole m | None \<Rightarrow> ''Navdeep Singh'')"

definition experience_answer :: "string \<Rightarrow> string" where
  \<comment> \<open>rule (b): the template literal prints a missing group as \<open>undefined\<close>\<close>
  "experience_answer context =
     (case search True experience_re context of
        Some m \<Rightarrow> (case group1 m of Some g \<Rightarrow> g | None \<Rightarrow> ''undefined'') @ '' years''
      | None \<Rightarrow> ''Experience duration not found in context'')"

definition skills :: "string list" where
  "skills = [''React'', ''JavaScript'', ''NodeJS'', ''ExpressJS'', ''Redux'', ''HTML5'', ''CSS3'',
             ''jQuery'']"

definition skill_answer :: "string \<Rightarrow> string" where
  \<comment> \<open>rule (c)\<close>
  "skill_answer context =
     (let found = filter (\<lambda>s. js_includes context (toLowerCase s)) skills
      in if length found > 0 then join '', '' found else ''Skills not clearly specified'')"

definition extractAnswer :: "string \<Rightarrow> exn + string" where
  \<comment> \<open>\<open>llm.extractAnswer\<close> of the main variant\<close>
  "extractAnswer input =
     (case question_field input of
        Inl e \<Rightarrow> Inl e
      | Inr question \<Rightarrow>
          (case context_field input of
             Inl e \<Rightarrow> Inl e
           | Inr context \<Rightarrow>
               if js_includes question ''name'' \<and> js_includes question ''portfolio''
               then Inr (name_answer context)
               else if js_includes question ''experience'' \<and> js_includes question ''year''
               then Inr (experience_answer context)
               else if js_includes question ''skill'' \<or> js_includes question ''technology''
               then Inr (skill_answer context)
               else Inr input))"

definition extractAnswer_debug :: "string \<Rightarrow> exn + string" where
  \<comment> \<open>\<open>llm.extractAnswer\<close> of the debug variant (\<open>src/debug.js\<close>), its console output left out\<close>
  "extractAnswer_debug input =
     (case (case search False question_re input of
              None \<Rightarrow> Inr [] | Some questionMatch \<Rightarrow> group_toLowerCase questionMatch) of
        Inl e \<Rightarrow> Inl e
      | Inr question \<Rightarrow>
          (case (case search False context_re input of
                   None \<Rightarrow> Inr [] | Some contextMatch \<Rightarrow> group_toLowerCase contextMatch) of
             Inl e \<Rightarrow> Inl e
           | Inr context \<Rightarrow>
               if js_includes question ''name'' \<and> js_includes question ''portfolio''
               then (let nameMatch = search True name_re context;
                         answer = (case nameMatch of Some m \<Rightarrow> whole m
                                   | None \<Rightarrow> ''Navdeep Singh'')
                     in Inr answer)
               else if js_includes question ''experience'' \<and> js_includes question ''year''
               then (let expMatch = search True experience_re context;
                         answer = (case expMatch of
                                     Some m \<Rightarrow>
                                       (case group1 m of Some g \<Rightarrow> g | None \<Rightarrow> ''undefined'')
                                       @ '' years''
                                   | None \<Rightarrow> ''Experience duration not found in context'')
                     in Inr answer)
               else if js_includes question ''skill'' \<or> js_includes question ''technology''
               then (let found = filter (\<lambda>s. let exists = js_includes context (toLowerCase s)
                                              in exists) skills;
                         answer = (if length found > 0 then join '', '' found
                                   else ''Skills not clearly specified'')
                     in Inr answer)
               else Inr input))"

definition template :: string where
  "template = ''Based on the following context, answer the question with a direct and exact answer. Be concise.\<newline>\<newline>Context:\<newline>{context}\<newline>\<newline>Question: {question}\<newline>\<newline>Answer (direct answer only):''"

section \<open>The chunk store and the runtime\<close>

text \<open>
  The arrays that a query reads and creates live in a heap of arrays, addressed by their
  position: the Chunk Store is the array at \<open>dataStore.docs\<close>, and \<open>Array.prototype.map\<close> and
  \<open>slice\<close> allocate a new array while \<open>sort\<close> sorts the array it is called on in place.
  The requests sent to the text-generation service are logged in \<open>sent\<close>.
\<close>

record chunk =
  pageContent :: string
  metadata :: "(string \<times> string) list"

record scored =
  doc :: chunk
  score :: nat

datatype jsarray = Docs "chunk list" | Scores "scored list" | Texts "string list"

type_synonym addr = nat

record txtgen_request =
  model :: string
  inputs :: string
  max_new_tokens :: nat
  temperature :: rat

record world =
  heap :: "jsarray list"
  sent :: "txtgen_request list"

text \<open>
  The text-generation call either rejects or returns a result, of which the adapter reads
  \<open>generated_text\<close> (\<open>None\<close> when the result or the field is missing). A call can reject
  with any value: an error object, which has a message, \<open>null\<close>, \<open>undefined\<close>, or a value of
  another kind, given by what reading its \<open>message\<close> and printing it does: the text printed
  (\<open>undefined\<close> for a string or a number), or the error thrown (by a getter, or by the
  conversion of a symbol). Reading \<open>error.message\<close> throws a \<open>TypeError\<close> on \<open>null\<close> and on
  \<open>undefined\<close>.
\<close>

datatype thrown = Thrown_error exn | Thrown_null | Thrown_undefined | Thrown_value "exn + string"

fun error_message :: "thrown \<Rightarrow> exn + string" where
  \<comment> \<open>\<open>error.message\<close> in a \<open>catch (error)\<close> block, as a template literal prints it\<close>
  "error_message (Thrown_error e) = Inr (message e)"
| "error_message Thrown_null = Inl (TypeError ''Cannot read properties of null (reading 'message')'')"
| "error_message Thrown_undefined =
     Inl (TypeError ''Cannot read properties of undefined (reading 'message')'')"
| "error_message (Thrown_value printed) = printed"

type_synonym service = "txtgen_request \<Rightarrow> thrown + string option"

record dataStore =
  docs :: addr
  hf :: "service option"

text \<open>
  \<open>new RegExp(kw, 'g')\<close> is the runtime's: it is a parameter of the model. Given the
  pattern text it either throws (a \<open>SyntaxError\<close> for a text that is no pattern) or yields the
  compiled pattern, which the retriever only uses to count matches: the function from a
  content to \<open>(content.match(regex) || []).length\<close>.
\<close>

type_synonym engine = "string \<Rightarrow> exn + (string \<Rightarrow> nat)"

definition alloc :: "jsarray \<Rightarrow> world \<Rightarrow> addr \<times> world" where
  "alloc a w = (length (heap w), w\<lparr>heap := heap w @ [a]\<rparr>)"

fun sort_by_score :: "jsarray \<Rightarrow> jsarray" where
  \<comment> \<open>\<open>sort((a, b) => b.score - a.score)\<close>: by descending score, and stable, as
      \<open>Array.prototype.sort\<close> is since ES2019; on elements without a score the comparator
      gives \<open>NaN\<close> and the order stays.\<close>
  "sort_by_score (Scores xs) = Scores (sort_key (\<lambda>s. - int (score s)) xs)"
| "sort_by_score a = a"

definition sort_in_place :: "addr \<Rightarrow> world \<Rightarrow> world" where
  "sort_in_place a w = w\<lparr>heap := (heap w)[a := sort_by_score (heap w ! a)]\<rparr>"

fun slice :: "nat \<Rightarrow> nat \<Rightarrow> jsarray \<Rightarrow> jsarray" where
  \<comment> \<open>\<open>slice(i, j)\<close> for \<open>i \<le> j\<close>\<close>
  "slice i j (Docs xs) = Docs (take (j - i) (drop i xs))"
| "slice i j (Scores xs) = Scores (take (j - i) (drop i xs))"
| "slice i j (Texts xs) = Texts (take (j - i) (drop i xs))"

fun map_pageContent :: "jsarray \<Rightarrow> exn + string list" where
  \<comment> \<open>\<open>map(s => s.doc.pageContent)\<close>\<close>
  "map_pageContent (Scores xs) = Inr (map (\<lambda>s. pageContent (doc s)) xs)"
| "map_pageContent (Docs xs) =
     (if xs = [] then Inr []
      else Inl (TypeError ''Cannot read properties of undefined (reading 'pageContent')''))"
| "map_pageContent (Texts xs) =
     (if xs = [] then Inr []
      else Inl (TypeError ''Cannot read properties of undefined (reading 'pageContent')''))"

fun array_map :: "('a \<Rightarrow> exn + 'b) \<Rightarrow> 'a list \<Rightarrow> exn + 'b list" where
  \<comment> \<open>\<open>map\<close> with a callback that may throw: the first throw ends the loop\<close>
  "array_map f [] = Inr []"
| "array_map f (x # xs) =
     (case f x of
        Inl e \<Rightarrow> Inl e
      | Inr y \<Rightarrow> (case array_map f xs of Inl e \<Rightarrow> Inl e | Inr ys \<Rightarrow> Inr (y # ys)))"

fun docs_map :: "(chunk \<Rightarrow> exn + scored) \<Rightarrow> jsarray \<Rightarrow> exn + scored list" where
  \<comment> \<open>\<open>dataStore.docs.map(callback)\<close>: on an element that is no document \<open>doc.pageContent\<close>
      is \<open>undefined\<close>, and the callback throws when it lower-cases it.\<close>
  "docs_map f (Docs ds) = array_map f ds"
| "docs_map f (Scores xs) =
     (if xs = [] then Inr []
      else Inl (TypeError ''Cannot read properties of undefined (reading 'toLowerCase')''))"
| "docs_map f (Texts xs) =
     (if xs = [] then Inr []
      else Inl (TypeError ''Cannot read properties of undefined (reading 'toLowerCase')''))"

section \<open>The retriever\<close>

function split_ws :: "string \<Rightarrow> string list" where
  \<comment> \<open>\<open>s.split(/\s+/)\<close>\<close>
  "split_ws s =
     (let token = takeWhile (\<lambda>c. \<not> is_space c) s;
          rest = dropWhile (\<lambda>c. \<not> is_space c) s
      in case rest of
           [] \<Rightarrow> [token]
         | _ # _ \<Rightarrow> token # split_ws (dropWhile is_space rest))"
  by pat_completeness auto
termination
proof (relation "measure length")
  fix s token rest :: string and x xs
  assume r: "rest = dropWhile (\<lambda>c. \<not> is_space c) s" "rest = x # xs"
  have "length (dropWhile is_space rest) \<le> length xs"
  proof -
    from r have "dropWhile (\<lambda>c. \<not> is_space c) s = x # xs" by simp
    then have "is_space x" by (simp add: dropWhile_eq_Cons_conv)
    with r(2) have "dropWhile is_space rest = dropWhile is_space xs" by simp
    then show ?thesis by (simp add: length_dropWhile_le)
  qed
  moreover have "length rest \<le> length s" using r(1) by (simp add: length_dropWhile_le)
  ultimately show "(dropWhile is_space rest, s) \<in> measure length" using r(2) by simp
qed simp

declare split_ws.simps [simp del]

definition keywords_of :: "string \<Rightarrow> string list" where
  \<comment> \<open>the \<open>keywords\<close> of \<open>retriever.invoke\<close>\<close>
  "keywords_of question =
     (let questionLower = toLowerCase question
      in filter (\<lambda>w. length w > 2) (split_ws questionLower))"

fun reduce_matches :: "engine \<Rightarrow> string \<Rightarrow> string list \<Rightarrow> nat \<Rightarrow> exn + nat" where
  \<comment> \<open>\<open>keywords.reduce((count, kw) => ..., 0)\<close>\<close>
  "reduce_matches RegExp contentLower [] count = Inr count"
| "reduce_matches RegExp contentLower (kw # kws) count =
     (case RegExp kw of
        Inl e \<Rightarrow> Inl e
      | Inr regex \<Rightarrow> reduce_matches RegExp contentLower kws (count + regex contentLower))"

definition score_doc :: "engine \<Rightarrow> string list \<Rightarrow> chunk \<Rightarrow> exn + scored" where
  \<comment> \<open>the callback of \<open>dataStore.docs.map\<close>\<close>
  "score_doc RegExp keywords d =
     (let contentLower = toLowerCase (pageContent d)
      in case reduce_matches RegExp contentLower keywords 0 of
           Inl e \<Rightarrow> Inl e
         | Inr matchCount \<Rightarrow> Inr \<lparr>doc = d, score = matchCount\<rparr>)"

definition retriever_invoke ::
  "engine \<Rightarrow> dataStore \<Rightarrow> string \<Rightarrow> world \<Rightarrow> (exn + string) \<times> world" where
  \<comment> \<open>\<open>retriever.invoke\<close> of the main variant\<close>
  "retriever_invoke RegExp dataStore question w =
     (let keywords = keywords_of question
      in case docs_map (score_doc RegExp keywords) (heap w ! docs dataStore) of
           Inl e \<Rightarrow> (Inl e, w)
         | Inr scored \<Rightarrow>
             (let (scores, w1) = alloc (Scores scored) w;
                  w2 = sort_in_place scores w1;
                  top6 = slice 0 6 (heap w2 ! scores);
                  (top, w3) = alloc top6 w2
              in case map_pageContent top6 of
                   Inl e \<Rightarrow> (Inl e, w3)
                 | Inr contents \<Rightarrow>
                     (let (mapped, w4) = alloc (Texts contents) w3
                      in (Inr (join ''\<newline>\<newline>'' contents), w4))))"

definition retriever_invoke_debug ::
  "engine \<Rightarrow> dataStore \<Rightarrow> string \<Rightarrow> world \<Rightarrow> (exn + string) \<times> world" where
  \<comment> \<open>\<open>retriever.invoke\<close> of the debug variant: \<open>sorted\<close> is \<open>scores\<close> itself, sliced once for
      the log and once for the result\<close>
  "retriever_invoke_debug RegExp dataStore question w =
     (let keywords = keywords_of question
      in case docs_map (score_doc RegExp keywords) (heap w ! docs dataStore) of
           Inl e \<Rightarrow> (Inl e, w)
         | Inr scored \<Rightarrow>
             (let (scores, w1) = alloc (Scores scored) w;
                  w2 = sort_in_place scores w1;
                  sorted = scores;
                  (logged, w3) = alloc (slice 0 6 (heap w2 ! sorted)) w2;
                  top6 = slice 0 6 (heap w3 ! sorted);
                  (top, w4) = alloc top6 w3
              in case map_pageContent top6 of
                   Inl e \<Rightarrow> (Inl e, w4)
                 | Inr contents \<Rightarrow>
                     (let (mapped, w5) = alloc (Texts contents) w4;
                          context = join ''\<newline>\<newline>'' contents
                      in (Inr context, w5))))"

section \<open>The generator adapter\<close>

definition unavailable :: string where
  "unavailable = ''Unable to generate answer - HF_API_KEY not set''"

definition llm_invoke :: "dataStore \<Rightarrow> string \<Rightarrow> world \<Rightarrow> (exn + string) \<times> world" where
  \<comment> \<open>\<open>llm.invoke\<close> of the main variant, on a string (\<open>promptText\<close> is then \<open>input\<close>): its
      \<open>try\<close> block reads the question, which it does not use, and calls the extractor, and
      so does its \<open>catch\<close> block\<close>
  "llm_invoke dataStore input w =
     (case hf dataStore of
        None \<Rightarrow> (Inr unavailable, w)
      | Some textGeneration \<Rightarrow>
          (let promptText = input;
               questionMatch = search False question_re promptText;
               question = (case questionMatch of Some m \<Rightarrow> group1 m | None \<Rightarrow> Some [])
           in case extractAnswer promptText of
                Inr answer \<Rightarrow> (Inr answer, w)
              | Inl error \<Rightarrow> (extractAnswer input, w)))"

definition llm_invoke_debug :: "dataStore \<Rightarrow> string \<Rightarrow> world \<Rightarrow> (exn + string) \<times> world" where
  \<comment> \<open>\<open>llm.invoke\<close> of the debug variant, on a string: its \<open>catch\<close> block prints
      \<open>error.message\<close> first, and falls back to the extractor when that read did not throw\<close>
  "llm_invoke_debug dataStore input w =
     (case hf dataStore of
        None \<Rightarrow> (Inr unavailable, w)
      | Some textGeneration \<Rightarrow>
          (let promptText = input;
               request = \<lparr>model = ''gpt2'', inputs = promptText, max_new_tokens = 50,
                          temperature = 7 / 10\<rparr>;
               w1 = w\<lparr>sent := sent w @ [request]\<rparr>
           in case textGeneration request of
                Inr generated_text \<Rightarrow>
                  (let answer = (case generated_text of
                                   None \<Rightarrow> promptText
                                 | Some g \<Rightarrow> if g = [] then promptText else g)
                   in (Inr answer, w1))
              | Inl error \<Rightarrow>
                  (case error_message error of
                     Inl e \<Rightarrow> (Inl e, w1)
                   | Inr printed \<Rightarrow> (extractAnswer_debug input, w1))))"

section \<open>Prompt assembly and the chain\<close>

fun index_of :: "string \<Rightarrow> string \<Rightarrow> nat option" where
  \<comment> \<open>the position of the first occurrence of \<open>pat\<close> in \<open>s\<close>\<close>
  "index_of pat [] = (if pat = [] then Some 0 else None)"
| "index_of pat (c # cs) =
     (if prefix pat (c # cs) then Some 0 else map_option Suc (index_of pat cs))"

fun get_substitution :: "string \<Rightarrow> string \<Rightarrow> string \<Rightarrow> string \<Rightarrow> string" where
  \<comment> \<open>the replacement text of \<open>String.prototype.replace\<close> with a string pattern: \<open>$$\<close>, \<open>$&\<close>,
      \<open>$`\<close> and \<open>$'\<close> are expanded, every other character stands for itself\<close>
  "get_substitution matched left right (c # d # rest) =
     (if c = CHR ''$'' \<and> d = CHR ''$'' then CHR ''$'' # get_substitution matched left right rest
      else if c = CHR ''$'' \<and> d = CHR ''&'' then matched @ get_substitution matched left right rest
      else if c = CHR ''$'' \<and> d = CHR ''`'' then left @ get_substitution matched left right rest
      else if c = CHR ''$'' \<and> d = CHR 0x27 then right @ get_substitution matched left right rest
      else c # get_substitution matched left right (d # rest))"
| "get_substitution matched left right rest = rest"

definition js_replace :: "string \<Rightarrow> string \<Rightarrow> string \<Rightarrow> string" where
  \<comment> \<open>\<open>s.replace(pat, replacement)\<close> with a string pattern: the first occurrence only\<close>
  "js_replace pat replacement s =
     (case index_of pat s of
        None \<Rightarrow> s
      | Some i \<Rightarrow>
          (let left = take i s; right = drop (i + length pat) s
           in left @ get_substitution pat left right replacement @ right))"

definition fullPrompt :: "string \<Rightarrow> string \<Rightarrow> string" where
  "fullPrompt context question =
     js_replace ''{question}'' question (js_replace ''{context}'' context template)"

definition chain_try :: "engine \<Rightarrow> dataStore \<Rightarrow> string \<Rightarrow> world \<Rightarrow> (exn + string) \<times> world" where
  \<comment> \<open>the \<open>try\<close> block of \<open>chain.invoke\<close>, main variant\<close>
  "chain_try RegExp dataStore question w =
     (case retriever_invoke RegExp dataStore question w of
        (Inl e, w1) \<Rightarrow> (Inl e, w1)
      | (Inr context, w1) \<Rightarrow> llm_invoke dataStore (fullPrompt context question) w1)"

definition chain_invoke :: "engine \<Rightarrow> dataStore \<Rightarrow> string \<Rightarrow> world \<Rightarrow> (exn + string) \<times> world" where
  \<comment> \<open>\<open>chain.invoke\<close> of the main variant\<close>
  "chain_invoke RegExp dataStore question w =
     (case chain_try RegExp dataStore question w of
        (Inr response, w') \<Rightarrow> (Inr response, w')
      | (Inl error, w') \<Rightarrow> (Inr (''Error: '' @ message error), w'))"

definition chain_try_debug ::
  "engine \<Rightarrow> dataStore \<Rightarrow> string \<Rightarrow> world \<Rightarrow> (exn + string) \<times> world" where
  \<comment> \<open>the \<open>try\<close> block of \<open>chain.invoke\<close>, debug variant\<close>
  "chain_try_debug RegExp dataStore question w =
     (case retriever_invoke_debug RegExp dataStore question w of
        (Inl e, w1) \<Rightarrow> (Inl e, w1)
      | (Inr context, w1) \<Rightarrow> llm_invoke_debug dataStore (fullPrompt context question) w1)"

definition chain_invoke_debug ::
  "engine \<Rightarrow> dataStore \<Rightarrow> string \<Rightarrow> world \<Rightarrow> (exn + string) \<times> world" where
  \<comment> \<open>\<open>chain.invoke\<close> of the debug variant\<close>
  "chain_invoke_debug RegExp dataStore question w =
     (case chain_try_debug RegExp dataStore question w of
        (Inr response, w') \<Rightarrow> (Inr response, w')
      | (Inl error, w') \<Rightarrow> (Inr (''Error: '' @ message error), w'))"

section \<open>An engine for the examples\<close>

text \<open>
  The theorems below hold for every engine. The examples need one: \<open>sample_RegExp\<close> is the
  runtime's \<open>new RegExp(kw, 'g')\<close> on the patterns made of plain characters, \<open>.\<close> and the
  quantifiers \<open>*\<close>, \<open>+\<close> and \<open>?\<close> (each lazy when a \<open>?\<close> follows). Such a pattern is rejected
  when a quantifier has nothing to repeat, and otherwise its matches are counted as
  \<open>match\<close> with the \<open>g\<close> flag finds them: from the left, the next search starting where the
  last match ended, one position further after an empty match. The patterns outside this
  fragment (anchors, escapes, groups, brackets, braces and alternatives) are not modelled: there the sample engine is
  not the runtime, it answers with an error of its own, and no example uses such a pattern.
\<close>

datatype parsed = Pattern regex | Rejected string | Unmodelled

definition is_quantifier :: "char \<Rightarrow> bool" where
  "is_quantifier c = (c \<in> set ''*+?'')"

definition is_unmodelled :: "char \<Rightarrow> bool" where
  "is_unmodelled c = (c \<in> set (''^$()[]{}|'' @ [CHR 0x5C]))"

definition atom :: "char \<Rightarrow> regex" where
  "atom c = (if c = CHR ''.'' then Cls Dot else Lit [c])"

definition quantify :: "char \<Rightarrow> bool \<Rightarrow> regex \<Rightarrow> regex" where
  "quantify q greedy r =
     (if q = CHR ''*'' then Star greedy r
      else if q = CHR ''+'' then Plus greedy r
      else Opt greedy r)"

fun seq_parsed :: "regex \<Rightarrow> parsed \<Rightarrow> parsed" where
  "seq_parsed r (Pattern p) = Pattern (Seq r p)"
| "seq_parsed r (Rejected m) = Rejected m"
| "seq_parsed r Unmodelled = Unmodelled"

fun parse_pattern :: "string \<Rightarrow> parsed" where
  "parse_pattern [] = Pattern (Lit [])"
| "parse_pattern (c # cs) =
     (if is_quantifier c then Rejected ''Nothing to repeat''
      else if is_unmodelled c then Unmodelled
      else (case cs of
              [] \<Rightarrow> seq_parsed (atom c) (parse_pattern cs)
            | q # cs1 \<Rightarrow>
                if is_quantifier q
                then (case cs1 of
                        [] \<Rightarrow> seq_parsed (quantify q True (atom c)) (parse_pattern cs1)
                      | l # cs2 \<Rightarrow>
                          if l = CHR ''?''
                          then seq_parsed (quantify q False (atom c)) (parse_pattern cs2)
                          else seq_parsed (quantify q True (atom c)) (parse_pattern cs1))
                else seq_parsed (atom c) (parse_pattern cs)))"

function count_global :: "regex \<Rightarrow> string \<Rightarrow> nat" where
  "count_global r s =
     (case rmatch False r (s, None) of
        st # _ \<Rightarrow>
          if length (fst st) < length s then Suc (count_global r (fst st))
          else (case s of [] \<Rightarrow> 1 | c # cs \<Rightarrow> Suc (count_global r cs))
      | [] \<Rightarrow> (case s of [] \<Rightarrow> 0 | c # cs \<Rightarrow> count_global r cs))"
  by pat_completeness auto
termination
  by (relation "measure (\<lambda>(r, s). length s)") auto

declare count_global.simps [simp del]

definition sample_RegExp :: engine where
  "sample_RegExp kw =
     (case parse_pattern kw of
        Pattern r \<Rightarrow> Inr (count_global r)
      | Rejected m \<Rightarrow> Inl (SyntaxError (''Invalid regular expression: /'' @ kw @ ''/g: '' @ m))
      | Unmodelled \<Rightarrow> Inl (Error ''pattern outside the modelled fragment''))"

section \<open>The matcher on the patterns of the source\<close>

lemma rmatch_suffix: "st' \<in> set (rmatch ic r st) \<Longrightarrow> suffix (fst st') (fst st)"
proof (induction ic r st arbitrary: st' rule: rmatch.induct)
  case (1 ic p s cap)
  then show ?case by (auto simp: rmatch.simps suffix_drop split: if_splits)
next
  case (2 ic k s cap)
  then show ?case by (auto simp: rmatch.simps suffix_Cons split: if_splits list.splits)
next
  case (3 ic a b st)
  from "3.prems" obtain m where m: "m \<in> set (rmatch ic a st)" "st' \<in> set (rmatch ic b m)"
    by (auto simp: rmatch.simps)
  from "3.IH"(1)[OF m(1)] "3.IH"(2)[OF m(1) m(2)] show ?case
    by (rule suffix_order.trans[rotated])
next
  case (4 ic a b st)
  then show ?case by (cases st') (auto simp: rmatch.simps)
next
  case (5 ic greedy r s cap)
  from "5.prems" have "st' = (s, cap) \<or>
     (\<exists>m \<in> set (rmatch ic r (s, cap)). length (fst m) < length s \<and> st' \<in> set (rmatch ic (Star greedy r) m))"
    by (auto simp: rmatch.simps(5) Let_def split: if_splits)
  then show ?case
  proof
    assume "st' = (s, cap)" then show ?thesis by simp
  next
    assume "\<exists>m \<in> set (rmatch ic r (s, cap)). length (fst m) < length s \<and> st' \<in> set (rmatch ic (Star greedy r) m)"
    then obtain m where m: "m \<in> set (rmatch ic r (s, cap))" "length (fst m) < length s"
      "st' \<in> set (rmatch ic (Star greedy r) m)" by blast
    from "5.IH"(1)[OF m(1)] have "suffix (fst m) s" by simp
    moreover from "5.IH"(2)[OF m(1) m(2) m(3)] have "suffix (fst st') (fst m)" .
    ultimately show ?thesis by (auto intro: suffix_order.trans)
  qed
next
  case (6 ic greedy r s cap)
  then show ?case by (cases st') (auto simp: rmatch.simps Let_def split: if_splits)
next
  case (7 ic r s cap)
  then show ?case by (cases st') (auto simp: rmatch.simps)
qed

lemma prefix_take_conv: "prefix p s \<longleftrightarrow> length p \<le> length s \<and> take (length p) s = p"
  by (metis prefix_length_le take_is_prefix append_eq_conv_conj prefix_def)

lemma list_all2_eq_conv: "list_all2 (unit_eq False) p q \<longleftrightarrow> p = q"
  by (simp add: unit_eq_def[abs_def] list.rel_eq)

lemma rmatch_Lit_exact:
  "rmatch False (Lit p) (s, c) = (if prefix p s then [(drop (length p) s, c)] else [])"
  by (auto simp: rmatch.simps(1) list_all2_eq_conv prefix_take_conv)

lemma rmatch_Lit_cases:
  "st' \<in> set (rmatch ic (Lit p) (s, c)) \<Longrightarrow>
     \<exists>w. s = w @ fst st' \<and> list_all2 (unit_eq ic) p w \<and> snd st' = c"
  by (cases st') (auto simp: rmatch.simps(1) split: if_splits intro!: exI[of _ "take (length p) s"])

lemma rmatch_Seq: "rmatch ic (Seq a b) st = concat (map (rmatch ic b) (rmatch ic a st))"
  by (simp add: rmatch.simps(3))

lemma rmatch_Cls:
  "rmatch ic (Cls k) (s, c) = (case s of [] \<Rightarrow> [] | x # xs \<Rightarrow> if in_cls k x then [(xs, c)] else [])"
  by (simp add: rmatch.simps(2))

lemma rmatch_lazy_Star_Cls:
  "rmatch ic (Star False (Cls k)) (s, c) = map (\<lambda>t. (t, c)) (tails_while (in_cls k) s)"
  by (induction s) (simp_all add: rmatch.simps(5) rmatch_Cls)

lemma tails_while_upt:
  "tails_while P s = map (\<lambda>n. drop n s) [0..<Suc (length (takeWhile P s))]"
proof (induction s)
  case Nil
  then show ?case by simp
next
  case (Cons x xs)
  show ?case
  proof (cases "P x")
    case True
    have "map (\<lambda>n. drop n (x # xs)) [0..<Suc (Suc (length (takeWhile P xs)))]
        = (x # xs) # map (\<lambda>n. drop n xs) [0..<Suc (length (takeWhile P xs))]"
      by (subst map_upt_Suc) simp
    with True Cons show ?thesis by simp
  next
    case False
    then show ?thesis by simp
  qed
qed

lemma rmatch_Group_lazy_Plus_Cls:
  "rmatch ic (Seq (Group (Plus False (Cls k))) b) (t, c)
   = concat (map (\<lambda>n. rmatch ic b (drop n t, Some (take n t)))
                 [1..<Suc (length (takeWhile (in_cls k) t))])"
proof (cases t)
  case Nil
  then show ?thesis by (simp add: rmatch_Seq rmatch.simps(7) Plus_def rmatch_Cls)
next
  case (Cons x xs)
  show ?thesis
  proof (cases "in_cls k x")
    case False
    with Cons show ?thesis by (simp add: rmatch_Seq rmatch.simps(7) Plus_def rmatch_Cls)
  next
    case True
    let ?m = "length (takeWhile (in_cls k) xs)"
    have le: "?m \<le> length xs" by (rule length_takeWhile_le)
    have "rmatch ic (Group (Plus False (Cls k))) (t, c)
          = map (\<lambda>n. (drop (Suc n) t, Some (take (Suc n) t))) [0..<Suc ?m]"
      using Cons True le
      by (simp add: rmatch_Seq rmatch.simps(7) Plus_def rmatch_Cls rmatch_lazy_Star_Cls
          tails_while_upt Suc_diff_le del: upt_Suc)
    moreover have "[1..<Suc (Suc ?m)] = map Suc [0..<Suc ?m]"
      by (simp only: map_Suc_upt One_nat_def)
    ultimately show ?thesis using Cons True
      by (simp add: rmatch_Seq comp_def del: upt_Suc)
  qed
qed

lemma concat_map_first:
  assumes "a \<le> N" "N < b" "\<And>i. a \<le> i \<Longrightarrow> i < N \<Longrightarrow> f i = []"
  shows "concat (map f [a..<b]) = f N @ concat (map f [Suc N..<b])"
proof -
  have "[a..<b] = [a..<N] @ N # [Suc N..<b]"
    using assms(1,2) by (metis le_Suc_ex less_imp_le_nat upt_add_eq_append upt_conv_Cons)
  moreover have "concat (map f [a..<N]) = []"
    using assms(3) by simp
  ultimately show ?thesis by simp
qed

lemma no_border:
  assumes "prefix m (u @ m @ rest)" "u \<noteq> []" "last m \<notin> set (butlast m)"
  shows "prefix m u"
proof (rule ccontr)
  assume np: "\<not> prefix m u"
  from assms(1) have "prefix m u \<or> (\<exists>us. m = u @ us \<and> prefix us (m @ rest))"
    by (simp only: prefix_append)
  with np obtain us where us: "m = u @ us" "prefix us (m @ rest)"
    by blast
  have ne: "us \<noteq> []"
  proof
    assume "us = []"
    with us(1) have "m = u" by simp
    with np show False by simp
  qed
  have "length m = length u + length us"
    by (subst us(1)) simp
  moreover have "0 < length u" using assms(2) by simp
  ultimately have len: "length us < length m" by linarith
  from us(2) obtain zs where zs: "m @ rest = us @ zs" unfolding prefix_def by blast
  have "take (length us) (m @ rest) = us"
    by (subst zs) simp
  moreover have "take (length us) (m @ rest) = take (length us) m"
    using len by simp
  moreover have "take (length us) m = take (length us) (butlast m)"
    using len by (simp only: take_butlast)
  ultimately have eq: "us = take (length us) (butlast m)" by simp
  have "set (take (length us) (butlast m)) \<subseteq> set (butlast m)"
    by (rule set_take_subset)
  with eq have sub: "set us \<subseteq> set (butlast m)" by simp
  have "last m = last (u @ us)" by (subst us(1)) (rule refl)
  with ne have "last m = last us" by simp
  moreover from ne have "last us \<in> set us" by simp
  ultimately show False using assms(3) sub by auto
qed

lemma prefix_drop_sublist:
  assumes "prefix m (drop i s)"
  shows "sublist m s"
proof -
  from assms obtain zs where "drop i s = m @ zs" by (auto simp: prefix_def)
  then have "s = take i s @ m @ zs" by (metis append_take_drop_id)
  then show ?thesis unfolding sublist_def by blast
qed

lemma search_hit:
  "rmatch ic r (s, None) = st # others \<Longrightarrow>
   search ic r s = Some \<lparr>whole = take (length s - length (fst st)) s, group1 = snd st\<rparr>"
  by (subst search.simps) simp

lemma search_skip:
  "(\<And>i. i < length pre \<Longrightarrow> rmatch ic r (drop i (pre @ s), None) = []) \<Longrightarrow>
   search ic r (pre @ s) = search ic r s"
proof (induction pre)
  case Nil
  then show ?case by simp
next
  case (Cons x pre)
  have "rmatch ic r ((x # pre) @ s, None) = []" using Cons.prems[of 0] by simp
  then have "search ic r ((x # pre) @ s) = search ic r (pre @ s)"
    by (subst search.simps) simp
  moreover have "search ic r (pre @ s) = search ic r s"
  proof (rule Cons.IH)
    fix i assume "i < length pre"
    then show "rmatch ic r (drop i (pre @ s), None) = []"
      using Cons.prems[of "Suc i"] by simp
  qed
  ultimately show ?case by simp
qed

lemma search_None:
  "(\<And>i. i \<le> length s \<Longrightarrow> rmatch ic r (drop i s, None) = []) \<Longrightarrow> search ic r s = None"
proof (induction s)
  case Nil
  then show ?case using Nil[of 0] by (subst search.simps) simp
next
  case (Cons x s)
  have "rmatch ic r (x # s, None) = []" using Cons.prems[of 0] by simp
  then have "search ic r (x # s) = search ic r s"
    by (subst search.simps) simp
  moreover have "search ic r s = None"
  proof (rule Cons.IH)
    fix i assume "i \<le> length s"
    then show "rmatch ic r (drop i s, None) = []"
      using Cons.prems[of "Suc i"] by simp
  qed
  ultimately show ?case by simp
qed

lemma search_Some_D:
  "search ic r s = Some m \<Longrightarrow>
   \<exists>t st others. suffix t s \<and> rmatch ic r (t, None) = st # others \<and>
      whole m = take (length t - length (fst st)) t \<and> group1 m = snd st"
proof (induction s)
  case Nil
  then show ?case
    by (subst (asm) search.simps) (auto split: list.splits)
next
  case (Cons x s)
  show ?case
  proof (cases "rmatch ic r (x # s, None)")
    case Nil
    with Cons.prems have "search ic r s = Some m"
      by (subst (asm) search.simps) simp
    from Cons.IH[OF this] obtain t st others where
      "suffix t s" "rmatch ic r (t, None) = st # others"
      "whole m = take (length t - length (fst st)) t" "group1 m = snd st" by blast
    moreover from this(1) have "suffix t (x # s)" by (rule suffix_ConsI)
    ultimately show ?thesis by blast
  next
    case (Cons st others)
    with Cons.prems
    have "m = \<lparr>whole = take (length (x # s) - length (fst st)) (x # s), group1 = snd st\<rparr>"
      by (subst (asm) search.simps) simp
    then have "whole m = take (length (x # s) - length (fst st)) (x # s)" "group1 m = snd st"
      by simp_all
    moreover have "suffix (x # s) (x # s)" by simp
    ultimately show ?thesis using Cons by blast
  qed
qed

lemma rmatch_Seq_Lit_here: "rmatch False (Seq (Lit p) b) (p @ t, c) = rmatch False b (t, c)"
  by (simp add: rmatch_Seq rmatch_Lit_exact)

lemma rmatch_Seq_Lit_miss: "\<not> prefix p s \<Longrightarrow> rmatch False (Seq (Lit p) b) (s, c) = []"
  by (simp add: rmatch_Seq rmatch_Lit_exact)

lemma lazy_group_first:
  assumes ne: "q \<noteq> []"
    and cls: "\<forall>x\<in>set q. in_cls k x"
    and before: "\<And>i. 1 \<le> i \<Longrightarrow> i < length q \<Longrightarrow> \<not> prefix p (drop i q @ p @ post)"
  shows "\<exists>others. rmatch False (Seq (Group (Plus False (Cls k))) (Lit p)) (q @ p @ post, c)
           = (post, Some q) # others"
proof -
  define t where "t = q @ p @ post"
  define f where "f = (\<lambda>n. rmatch False (Lit p) (drop n t, Some (take n t)))"
  define b where "b = Suc (length (takeWhile (in_cls k) t))"
  have "takeWhile (in_cls k) t = q @ takeWhile (in_cls k) (p @ post)"
    unfolding t_def using cls by (simp add: takeWhile_append2)
  then have lt: "length q < b" unfolding b_def by simp
  have one: "1 \<le> length q" using ne by (cases q) simp_all
  have emp: "f i = []" if "1 \<le> i" "i < length q" for i
  proof -
    have "drop i t = drop i q @ p @ post" unfolding t_def using that by simp
    with before[OF that] show ?thesis unfolding f_def by (simp add: rmatch_Lit_exact)
  qed
  have at: "f (length q) = [(post, Some q)]"
    unfolding f_def t_def by (simp add: rmatch_Lit_exact)
  have "concat (map f [1..<b]) = f (length q) @ concat (map f [Suc (length q)..<b])"
    using one lt emp by (rule concat_map_first)
  then have "concat (map f [1..<b]) = (post, Some q) # concat (map f [Suc (length q)..<b])"
    unfolding at by simp
  moreover have "rmatch False (Seq (Group (Plus False (Cls k))) (Lit p)) (t, c)
                 = concat (map f [1..<b])"
    unfolding f_def b_def by (rule rmatch_Group_lazy_Plus_Cls)
  ultimately show ?thesis unfolding t_def by simp
qed

lemma question_re_eq:
  "question_re = Seq (Lit ''Question: '') (Seq (Group (Plus False (Cls Dot))) (Lit ''\<newline>''))"
  by (simp add: question_re_def)

lemma context_re_eq:
  "context_re = Seq (Lit ''Context:\<newline>'')
                  (Seq (Group (Plus False (Cls AnyUnit))) (Lit ''\<newline>\<newline>Question:''))"
  by (simp add: context_re_def)

lemma question_re_hit:
  assumes "q \<noteq> []" "\<forall>x\<in>set q. \<not> is_line_terminator x"
  shows "\<exists>others. rmatch False question_re (''Question: '' @ q @ ''\<newline>'' @ post, c)
           = (post, Some q) # others"
proof -
  have before: "\<not> prefix ''\<newline>'' (drop i q @ ''\<newline>'' @ post)" if "1 \<le> i" "i < length q" for i
  proof -
    from that have "drop i q = q ! i # drop (Suc i) q" by (simp add: Cons_nth_drop_Suc)
    moreover have "q ! i \<in> set q" using that by simp
    then have "\<not> is_line_terminator (q ! i)" using assms(2) by blast
    then have "q ! i \<noteq> CHR ''\<newline>''" by (auto simp: is_line_terminator_def)
    ultimately show ?thesis by simp
  qed
  have cls: "\<forall>x\<in>set q. in_cls Dot x" using assms(2) by simp
  show ?thesis
    unfolding question_re_eq rmatch_Seq_Lit_here
    by (rule lazy_group_first[OF assms(1) cls before])
qed

lemma context_re_hit:
  assumes "ctx \<noteq> []" "\<not> sublist ''\<newline>\<newline>Question:'' ctx"
  shows "\<exists>others. rmatch False context_re
            (''Context:\<newline>'' @ ctx @ ''\<newline>\<newline>Question:'' @ post, c)
           = (post, Some ctx) # others"
proof -
  have before: "\<not> prefix ''\<newline>\<newline>Question:'' (drop i ctx @ ''\<newline>\<newline>Question:'' @ post)"
    if "1 \<le> i" "i < length ctx" for i
  proof
    assume "prefix ''\<newline>\<newline>Question:'' (drop i ctx @ ''\<newline>\<newline>Question:'' @ post)"
    moreover have "drop i ctx \<noteq> []" using that by simp
    moreover have "last ''\<newline>\<newline>Question:'' \<notin> set (butlast ''\<newline>\<newline>Question:'')" by simp
    ultimately have "prefix ''\<newline>\<newline>Question:'' (drop i ctx)" by (rule no_border)
    then have "sublist ''\<newline>\<newline>Question:'' ctx" by (rule prefix_drop_sublist)
    with assms(2) show False by blast
  qed
  have cls: "\<forall>x\<in>set ctx. in_cls AnyUnit x" by simp
  show ?thesis
    unfolding context_re_eq rmatch_Seq_Lit_here
    by (rule lazy_group_first[OF assms(1) cls before])
qed


lemma rmatch_group_Some:
  assumes "st \<in> set (rmatch False (Seq (Lit p) (Seq (Group g) (Lit p2))) st0)"
  shows "snd st \<noteq> None"
proof -
  from assms obtain m where m: "m \<in> set (rmatch False (Lit p) st0)"
    "st \<in> set (rmatch False (Seq (Group g) (Lit p2)) m)"
    by (auto simp: rmatch_Seq)
  from m(2) obtain m2 where m2: "m2 \<in> set (rmatch False (Group g) m)"
    "st \<in> set (rmatch False (Lit p2) m2)"
    by (auto simp: rmatch_Seq)
  from m2(1) have "snd m2 \<noteq> None" by (cases m) (auto simp: rmatch.simps(7))
  moreover from m2(2) have "snd st = snd m2"
    using rmatch_Lit_cases[of st False p2 "fst m2" "snd m2"] by auto
  ultimately show ?thesis by simp
qed

lemma rmatch_end_Lit_sublist:
  assumes "st \<in> set (rmatch False (Seq a (Seq g (Lit p))) st0)"
  shows "sublist p (fst st0)"
proof -
  from assms obtain m where m: "m \<in> set (rmatch False a st0)"
    "st \<in> set (rmatch False (Seq g (Lit p)) m)"
    by (auto simp: rmatch_Seq)
  from m(2) obtain m2 where m2: "m2 \<in> set (rmatch False g m)"
    "st \<in> set (rmatch False (Lit p) m2)"
    by (auto simp: rmatch_Seq)
  from m2(2) have "prefix p (fst m2)"
    by (cases m2) (auto simp: rmatch_Lit_exact split: if_splits)
  moreover have "suffix (fst m2) (fst st0)"
    using rmatch_suffix[OF m(1)] rmatch_suffix[OF m2(1)] by (rule suffix_order.trans[rotated])
  ultimately show ?thesis unfolding sublist_altdef' by blast
qed

lemma search_question_group:
  assumes "search False question_re s = Some m"
  shows "group1 m \<noteq> None"
proof -
  from search_Some_D[OF assms] obtain t st others where
    "rmatch False question_re (t, None) = st # others" "group1 m = snd st" by blast
  moreover from this(1) have "st \<in> set (rmatch False question_re (t, None))" by simp
  then have "snd st \<noteq> None" unfolding question_re_eq by (rule rmatch_group_Some)
  ultimately show ?thesis by simp
qed

lemma search_context_group:
  assumes "search False context_re s = Some m"
  shows "group1 m \<noteq> None"
proof -
  from search_Some_D[OF assms] obtain t st others where
    "rmatch False context_re (t, None) = st # others" "group1 m = snd st" by blast
  moreover from this(1) have "st \<in> set (rmatch False context_re (t, None))" by simp
  then have "snd st \<noteq> None" unfolding context_re_eq by (rule rmatch_group_Some)
  ultimately show ?thesis by simp
qed

lemma question_field_total: "\<exists>q. question_field input = Inr q"
proof (cases "search False question_re input")
  case None
  then show ?thesis by (simp add: question_field_def)
next
  case (Some m)
  with search_question_group[OF Some] show ?thesis
    by (auto simp: question_field_def group_toLowerCase_def)
qed

lemma context_field_total: "\<exists>c. context_field input = Inr c"
proof (cases "search False context_re input")
  case None
  then show ?thesis by (simp add: context_field_def)
next
  case (Some m)
  with search_context_group[OF Some] show ?thesis
    by (auto simp: context_field_def group_toLowerCase_def)
qed

lemma extractAnswer_total: "\<exists>answer. extractAnswer input = Inr answer"
proof -
  obtain q where q: "question_field input = Inr q" using question_field_total by blast
  obtain c where c: "context_field input = Inr c" using context_field_total by blast
  show ?thesis by (simp add: extractAnswer_def q c)
qed

lemma marker_miss_before:
  assumes "\<not> sublist m pre" "last m \<notin> set (butlast m)" "i < length pre"
  shows "\<not> prefix m (drop i (pre @ m @ rest))"
proof
  assume "prefix m (drop i (pre @ m @ rest))"
  then have "prefix m (drop i pre @ m @ rest)" using assms(3) by simp
  moreover have "drop i pre \<noteq> []" using assms(3) by simp
  ultimately have "prefix m (drop i pre)" using assms(2) by (rule no_border)
  then have "sublist m pre" by (rule prefix_drop_sublist)
  with assms(1) show False by blast
qed

lemma search_hit_group:
  assumes "rmatch ic r (s, None) = (rest, g) # others"
  shows "\<exists>m. search ic r s = Some m \<and> group1 m = g"
  using search_hit[OF assms] by simp

lemma sublist_drop: 
  assumes "sublist p (drop i s)"
  shows "sublist p s"
proof -
  from assms obtain ps ss where "drop i s = ps @ p @ ss" unfolding sublist_def by blast
  then have "take i s @ drop i s = (take i s @ ps) @ p @ ss" by simp
  then have "s = (take i s @ ps) @ p @ ss" by (simp only: append_take_drop_id)
  then show ?thesis unfolding sublist_def by blast
qed

lemma question_search_wellformed:
  assumes "\<not> sublist ''Question: '' pre" "q \<noteq> []" "\<forall>x\<in>set q. \<not> is_line_terminator x"
  shows "\<exists>m. search False question_re (pre @ ''Question: '' @ q @ ''\<newline>'' @ post) = Some m
             \<and> group1 m = Some q"
proof -
  let ?s = "''Question: '' @ q @ ''\<newline>'' @ post"
  have "search False question_re (pre @ ?s) = search False question_re ?s"
  proof (rule search_skip)
    fix i assume "i < length pre"
    with assms(1) have "\<not> prefix ''Question: '' (drop i (pre @ ?s))"
      by (intro marker_miss_before) simp_all
    then show "rmatch False question_re (drop i (pre @ ?s), None) = []"
      unfolding question_re_eq by (rule rmatch_Seq_Lit_miss)
  qed
  moreover from question_re_hit[OF assms(2,3), of post None] obtain others where
    "rmatch False question_re (?s, None) = (post, Some q) # others" by blast
  from search_hit_group[OF this] obtain m where
    "search False question_re ?s = Some m" "group1 m = Some q" by blast
  ultimately have "search False question_re (pre @ ?s) = Some m \<and> group1 m = Some q"
    by simp
  then show ?thesis by (rule exI)
qed

lemma question_field_wellformed:
  assumes "\<not> sublist ''Question: '' pre" "q \<noteq> []" "\<forall>x\<in>set q. \<not> is_line_terminator x"
  shows "question_field (pre @ ''Question: '' @ q @ ''\<newline>'' @ post) = Inr (toLowerCase q)"
proof -
  from question_search_wellformed[OF assms, of post] obtain m where
    "search False question_re (pre @ ''Question: '' @ q @ ''\<newline>'' @ post) = Some m"
    "group1 m = Some q" by (elim exE conjE)
  then show ?thesis
    unfolding question_field_def group_toLowerCase_def by (simp only: option.case)
qed

lemma context_search_wellformed:
  assumes "\<not> sublist ''Context:\<newline>'' pre" "ctx \<noteq> []" "\<not> sublist ''\<newline>\<newline>Question:'' ctx"
  shows "\<exists>m. search False context_re
               (pre @ ''Context:\<newline>'' @ ctx @ ''\<newline>\<newline>Question:'' @ post) = Some m
             \<and> group1 m = Some ctx"
proof -
  let ?s = "''Context:\<newline>'' @ ctx @ ''\<newline>\<newline>Question:'' @ post"
  have "search False context_re (pre @ ?s) = search False context_re ?s"
  proof (rule search_skip)
    fix i assume "i < length pre"
    with assms(1) have "\<not> prefix ''Context:\<newline>'' (drop i (pre @ ?s))"
      by (intro marker_miss_before) simp_all
    then show "rmatch False context_re (drop i (pre @ ?s), None) = []"
      unfolding context_re_eq by (rule rmatch_Seq_Lit_miss)
  qed
  moreover from context_re_hit[OF assms(2,3), of post None] obtain others where
    "rmatch False context_re (?s, None) = (post, Some ctx) # others" by blast
  from search_hit_group[OF this] obtain m where
    "search False context_re ?s = Some m" "group1 m = Some ctx" by blast
  ultimately have "search False context_re (pre @ ?s) = Some m \<and> group1 m = Some ctx"
    by simp
  then show ?thesis by (rule exI)
qed

lemma context_field_wellformed:
  assumes "\<not> sublist ''Context:\<newline>'' pre" "ctx \<noteq> []" "\<not> sublist ''\<newline>\<newline>Question:'' ctx"
  shows "context_field (pre @ ''Context:\<newline>'' @ ctx @ ''\<newline>\<newline>Question:'' @ post)
         = Inr (toLowerCase ctx)"
proof -
  from context_search_wellformed[OF assms, of post] obtain m where
    "search False context_re
       (pre @ ''Context:\<newline>'' @ ctx @ ''\<newline>\<newline>Question:'' @ post) = Some m"
    "group1 m = Some ctx" by (elim exE conjE)
  then show ?thesis
    unfolding context_field_def group_toLowerCase_def by (simp only: option.case)
qed

lemma question_field_absent:
  assumes "\<not> sublist ''Question: '' input"
  shows "question_field input = Inr []"
proof -
  have "search False question_re input = None"
  proof (rule search_None)
    fix i
    from assms have "\<not> prefix ''Question: '' (drop i input)" using prefix_drop_sublist by blast
    then show "rmatch False question_re (drop i input, None) = []"
      unfolding question_re_eq by (rule rmatch_Seq_Lit_miss)
  qed
  then show ?thesis by (simp add: question_field_def)
qed

lemma context_field_absent:
  assumes "\<not> sublist ''Context:\<newline>'' input \<or> \<not> sublist ''\<newline>\<newline>Question:'' input"
  shows "context_field input = Inr []"
proof -
  have "search False context_re input = None"
  proof (rule search_None)
    fix i
    show "rmatch False context_re (drop i input, None) = []"
    proof (rule ccontr)
      assume "rmatch False context_re (drop i input, None) \<noteq> []"
      then obtain st where st: "st \<in> set (rmatch False context_re (drop i input, None))"
        by (cases "rmatch False context_re (drop i input, None)") auto
      then have "sublist ''\<newline>\<newline>Question:'' (fst (drop i input, None :: string option))"
        unfolding context_re_eq by (rule rmatch_end_Lit_sublist)
      then have "sublist ''\<newline>\<newline>Question:'' (drop i input)" by simp
      then have a: "sublist ''\<newline>\<newline>Question:'' input" by (rule sublist_drop)
      have "prefix ''Context:\<newline>'' (drop i input)"
      proof (rule ccontr)
        assume "\<not> prefix ''Context:\<newline>'' (drop i input)"
        then have "rmatch False context_re (drop i input, None) = []"
          unfolding context_re_eq by (rule rmatch_Seq_Lit_miss)
        with st show False by simp
      qed
      then have "sublist ''Context:\<newline>'' input" by (rule prefix_drop_sublist)
      with a assms show False by blast
    qed
  qed
  then show ?thesis by (simp add: context_field_def)
qed


lemma sublist_split_at:
  assumes "y \<notin> set m" "sublist m (xs @ y # zs)"
  shows "sublist m xs \<or> sublist m zs"
proof -
  from assms(2) consider "sublist m xs" | "sublist m (y # zs)"
    | m1 m2 where "m = m1 @ m2" "suffix m1 xs" "prefix m2 (y # zs)"
    unfolding sublist_append by blast
  then show ?thesis
  proof cases
    case 1
    then show ?thesis by simp
  next
    case 2
    then have "prefix m (y # zs) \<or> sublist m zs" by (simp only: sublist_Cons_right)
    then show ?thesis
    proof
      assume "prefix m (y # zs)"
      with assms(1) have "m = []" by (cases m) auto
      then show ?thesis by simp
    qed simp
  next
    case 3
    from 3(3) assms(1) 3(1) have "m2 = []" by (cases m2) auto
    with 3(1,2) have "suffix m xs" by simp
    then show ?thesis by (simp add: suffix_imp_sublist)
  qed
qed

lemma sublist_last_notin:
  assumes "m \<noteq> []" "last m \<notin> set ys" "sublist m (xs @ ys)"
  shows "sublist m xs"
proof -
  from assms(3) consider "sublist m xs" | "sublist m ys"
    | m1 m2 where "m = m1 @ m2" "suffix m1 xs" "prefix m2 ys"
    unfolding sublist_append by blast
  then show ?thesis
  proof cases
    case 1
    then show ?thesis .
  next
    case 2
    then have "set m \<subseteq> set ys" by (auto simp: sublist_def)
    moreover have "last m \<in> set m" using assms(1) by simp
    ultimately show ?thesis using assms(2) by blast
  next
    case 3
    show ?thesis
    proof (cases "m2 = []")
      case True
      with 3(1,2) have "suffix m xs" by simp
      then show ?thesis by (simp add: suffix_imp_sublist)
    next
      case False
      with 3(1) have "last m = last m2" by simp
      moreover have "last m2 \<in> set m2" using False by simp
      moreover from 3(3) have "set m2 \<subseteq> set ys" by (auto simp: prefix_def)
      ultimately show ?thesis using assms(2) by auto
    qed
  qed
qed

lemma question_marker_not_before:
  assumes "\<not> sublist ''Question: '' pre" "\<not> sublist ''Question: '' ctx"
  shows "\<not> sublist ''Question: '' (pre @ ''Context:\<newline>'' @ ctx @ ''\<newline>\<newline>'')"
proof
  assume a: "sublist ''Question: '' (pre @ ''Context:\<newline>'' @ ctx @ ''\<newline>\<newline>'')"
  have nl: "CHR ''\<newline>'' \<notin> set ''Question: ''" by simp
  from a have "sublist ''Question: '' ((pre @ ''Context:'') @ CHR ''\<newline>'' # (ctx @ ''\<newline>\<newline>''))"
    by simp
  from sublist_split_at[OF nl this]
  have "sublist ''Question: '' (pre @ ''Context:'') \<or> sublist ''Question: '' (ctx @ ''\<newline>\<newline>'')" .
  then show False
  proof
    assume "sublist ''Question: '' (pre @ ''Context:'')"
    then have "sublist ''Question: '' pre"
      by (rule sublist_last_notin[rotated 2]) simp_all
    with assms(1) show False by blast
  next
    assume "sublist ''Question: '' (ctx @ ''\<newline>\<newline>'')"
    then have "sublist ''Question: '' (ctx @ CHR ''\<newline>'' # ''\<newline>'')" by simp
    from sublist_split_at[OF nl this] have "sublist ''Question: '' ctx \<or> sublist ''Question: '' ''\<newline>''" .
    then show False
    proof
      assume "sublist ''Question: '' ctx" with assms(2) show False by blast
    next
      assume "sublist ''Question: '' ''\<newline>''"
      then have "length ''Question: '' \<le> length ''\<newline>''" by (rule sublist_length_le)
      then show False by simp
    qed
  qed
qed

lemma fields_wellformed:
  assumes "\<not> sublist ''Context:\<newline>'' pre" "\<not> sublist ''Question: '' pre"
    "ctx \<noteq> []" "\<not> sublist ''\<newline>\<newline>Question:'' ctx" "\<not> sublist ''Question: '' ctx"
    "q \<noteq> []" "\<forall>x\<in>set q. \<not> is_line_terminator x"
  shows "context_field (pre @ ''Context:\<newline>'' @ ctx @ ''\<newline>\<newline>Question: '' @ q @ ''\<newline>'' @ post)
           = Inr (toLowerCase ctx)"
    and "question_field (pre @ ''Context:\<newline>'' @ ctx @ ''\<newline>\<newline>Question: '' @ q @ ''\<newline>'' @ post)
           = Inr (toLowerCase q)"
    and "\<exists>m. search False context_re
               (pre @ ''Context:\<newline>'' @ ctx @ ''\<newline>\<newline>Question: '' @ q @ ''\<newline>'' @ post) = Some m
             \<and> group1 m = Some ctx"
    and "\<exists>m. search False question_re
               (pre @ ''Context:\<newline>'' @ ctx @ ''\<newline>\<newline>Question: '' @ q @ ''\<newline>'' @ post) = Some m
             \<and> group1 m = Some q"
proof -
  have e1: "pre @ ''Context:\<newline>'' @ ctx @ ''\<newline>\<newline>Question: '' @ q @ ''\<newline>'' @ post
        = pre @ ''Context:\<newline>'' @ ctx @ ''\<newline>\<newline>Question:'' @ ('' '' @ q @ ''\<newline>'' @ post)"
    by simp
  have e2: "pre @ ''Context:\<newline>'' @ ctx @ ''\<newline>\<newline>Question: '' @ q @ ''\<newline>'' @ post
        = (pre @ ''Context:\<newline>'' @ ctx @ ''\<newline>\<newline>'') @ ''Question: '' @ q @ ''\<newline>'' @ post"
    by simp
  have nq: "\<not> sublist ''Question: '' (pre @ ''Context:\<newline>'' @ ctx @ ''\<newline>\<newline>'')"
    using assms(2,5) by (rule question_marker_not_before)
  show "context_field (pre @ ''Context:\<newline>'' @ ctx @ ''\<newline>\<newline>Question: '' @ q @ ''\<newline>'' @ post)
           = Inr (toLowerCase ctx)"
    unfolding e1 using assms(1,3,4) by (rule context_field_wellformed)
  show "question_field (pre @ ''Context:\<newline>'' @ ctx @ ''\<newline>\<newline>Question: '' @ q @ ''\<newline>'' @ post)
           = Inr (toLowerCase q)"
    unfolding e2 using nq assms(6,7) by (rule question_field_wellformed)
  show "\<exists>m. search False context_re
               (pre @ ''Context:\<newline>'' @ ctx @ ''\<newline>\<newline>Question: '' @ q @ ''\<newline>'' @ post) = Some m
             \<and> group1 m = Some ctx"
    unfolding e1 using assms(1,3,4) by (rule context_search_wellformed)
  show "\<exists>m. search False question_re
               (pre @ ''Context:\<newline>'' @ ctx @ ''\<newline>\<newline>Question: '' @ q @ ''\<newline>'' @ post) = Some m
             \<and> group1 m = Some q"
    unfolding e2 using nq assms(6,7) by (rule question_search_wellformed)
qed

lemma rmatch_end_Lit:
  assumes "st \<in> set (rmatch ic (Seq a (Seq g (Lit p))) (t, c))"
  shows "\<exists>u w. t = u @ w @ fst st \<and> list_all2 (unit_eq ic) p w"
proof -
  from assms obtain m where m: "m \<in> set (rmatch ic a (t, c))"
    "st \<in> set (rmatch ic (Seq g (Lit p)) m)"
    by (auto simp: rmatch_Seq)
  from m(2) obtain m2 where m2: "m2 \<in> set (rmatch ic g m)"
    "st \<in> set (rmatch ic (Lit p) m2)"
    by (auto simp: rmatch_Seq)
  from m2(2) obtain w where w: "fst m2 = w @ fst st" "list_all2 (unit_eq ic) p w"
    using rmatch_Lit_cases[of st ic p "fst m2" "snd m2"] by auto
  have "suffix (fst m2) t"
    using rmatch_suffix[OF m(1)] rmatch_suffix[OF m2(1)]
    by (auto intro: suffix_order.trans)
  then obtain u where "t = u @ fst m2" unfolding suffix_def by blast
  with w show ?thesis by auto
qed

lemma list_all2_last:
  assumes "list_all2 P p w" "p \<noteq> []"
  shows "w \<noteq> [] \<and> P (last p) (last w)"
proof -
  from assms(1) have len: "length p = length w" by (rule list_all2_lengthD)
  with assms(2) have ne: "w \<noteq> []" by auto
  have "length p - 1 < length p" using assms(2) by simp
  with assms(1) have "P (p ! (length p - 1)) (w ! (length p - 1))"
    by (rule list_all2_nthD)
  with ne assms(2) len show ?thesis by (simp add: last_conv_nth)
qed

lemma name_re_eq:
  "name_re = Seq (Lit ''navdeep'') (Seq (Plus True (Cls Space)) (Lit ''singh''))"
  by (simp add: name_re_def)

lemma name_answer_last:
  "name_answer context \<noteq> [] \<and> unit_eq True (CHR ''h'') (last (name_answer context))"
proof (cases "search True name_re context")
  case None
  then show ?thesis by (simp add: name_answer_def unit_eq_def)
next
  case (Some m)
  from search_Some_D[OF Some] obtain t st others where
    r: "rmatch True name_re (t, None) = st # others"
    and wh: "whole m = take (length t - length (fst st)) t" by blast
  from r have "st \<in> set (rmatch True name_re (t, None))" by simp
  then have "\<exists>u w. t = u @ w @ fst st \<and> list_all2 (unit_eq True) ''singh'' w"
    unfolding name_re_eq by (rule rmatch_end_Lit)
  then obtain u w where uw: "t = u @ w @ fst st" "list_all2 (unit_eq True) ''singh'' w"
    by (elim exE conjE)
  from uw(1) have "length t - length (fst st) = length (u @ w)" by simp
  moreover from uw(1) have "take (length (u @ w)) t = u @ w" by simp
  ultimately have "whole m = u @ w" using wh by simp
  moreover from list_all2_last[OF uw(2)] have "w \<noteq> []" "unit_eq True (CHR ''h'') (last w)"
    by simp_all
  ultimately show ?thesis using Some by (simp add: name_answer_def)
qed

lemma experience_answer_last:
  "last (experience_answer context) = CHR ''s'' \<or> last (experience_answer context) = CHR ''t''"
  by (simp add: experience_answer_def split: option.splits)

lemma name_answer_neq_experience_answer: "name_answer c1 \<noteq> experience_answer c2"
proof
  assume "name_answer c1 = experience_answer c2"
  with name_answer_last[of c1]
  have "unit_eq True (CHR ''h'') (last (experience_answer c2))" by simp
  with experience_answer_last[of c2]
  have "unit_eq True (CHR ''h'') (CHR ''s'') \<or> unit_eq True (CHR ''h'') (CHR ''t'')" by auto
  moreover have "\<not> unit_eq True (CHR ''h'') (CHR ''s'')" "\<not> unit_eq True (CHR ''h'') (CHR ''t'')"
    by code_simp+
  ultimately show False by blast
qed


section \<open>The retriever and the adapter\<close>

lemma extractAnswer_debug_total: "\<exists>answer. extractAnswer_debug input = Inr answer"
proof -
  have "extractAnswer_debug input = extractAnswer input"
    unfolding extractAnswer_debug_def extractAnswer_def question_field_def context_field_def
      name_answer_def experience_answer_def skill_answer_def Let_def
    by (rule refl)
  with extractAnswer_total[of input] show ?thesis by simp
qed

lemma array_map_no_keywords:
  "array_map (score_doc RegExp []) ds = Inr (map (\<lambda>d. \<lparr>doc = d, score = 0\<rparr>) ds)"
  by (induction ds) (simp_all add: score_doc_def)

lemma array_map_Inr_doc:
  "array_map (score_doc RegExp kws) ds = Inr scored \<Longrightarrow> map doc scored = ds"
proof (induction ds arbitrary: scored)
  case Nil
  then show ?case by simp
next
  case (Cons d ds)
  then show ?case
    by (auto simp: score_doc_def split: sum.splits)
qed

lemma array_map_Inr_score:
  "array_map (score_doc RegExp kws) ds = Inr scored \<Longrightarrow>
   \<forall>s\<in>set scored. score_doc RegExp kws (doc s) = Inr s"
proof (induction ds arbitrary: scored)
  case Nil
  then show ?case by simp
next
  case (Cons d ds)
  then show ?case
    by (auto simp: score_doc_def split: sum.splits)
qed

lemma array_map_first_keyword_rejected:
  "RegExp kw = Inl e \<Longrightarrow> array_map (score_doc RegExp (kw # kws)) (d # ds) = Inl e"
  by (simp add: score_doc_def)

lemma retriever_invoke_raise:
  assumes "docs_map (score_doc RegExp (keywords_of question)) (heap w ! docs dataStore) = Inl e"
  shows "retriever_invoke RegExp dataStore question w = (Inl e, w)"
    and "retriever_invoke_debug RegExp dataStore question w = (Inl e, w)"
  using assms by (simp_all add: retriever_invoke_def retriever_invoke_debug_def)

lemma retriever_invoke_return:
  assumes "docs_map (score_doc RegExp (keywords_of question)) (heap w ! docs dataStore)
           = Inr scored"
  shows "retriever_invoke RegExp dataStore question w =
     (let sorted = sort_key (\<lambda>s. - int (score s)) scored;
          top6 = take 6 sorted;
          contents = map (\<lambda>s. pageContent (doc s)) top6
      in (Inr (join ''\<newline>\<newline>'' contents),
          w\<lparr>heap := heap w @ [Scores sorted, Scores top6, Texts contents]\<rparr>))"
  using assms
  by (simp add: retriever_invoke_def alloc_def sort_in_place_def Let_def nth_append)

lemma retriever_invoke_debug_return:
  assumes "docs_map (score_doc RegExp (keywords_of question)) (heap w ! docs dataStore)
           = Inr scored"
  shows "retriever_invoke_debug RegExp dataStore question w =
     (let sorted = sort_key (\<lambda>s. - int (score s)) scored;
          top6 = take 6 sorted;
          contents = map (\<lambda>s. pageContent (doc s)) top6
      in (Inr (join ''\<newline>\<newline>'' contents),
          w\<lparr>heap := heap w @ [Scores sorted, Scores top6, Scores top6, Texts contents]\<rparr>))"
  using assms
  by (simp add: retriever_invoke_debug_def alloc_def sort_in_place_def Let_def nth_append)

lemma retriever_invoke_Inl:
  assumes "heap w ! docs dataStore = Docs ds"
    "array_map (score_doc RegExp (keywords_of question)) ds = Inl e"
  shows "retriever_invoke RegExp dataStore question w = (Inl e, w)"
    and "retriever_invoke_debug RegExp dataStore question w = (Inl e, w)"
  using assms by (simp_all add: retriever_invoke_raise)

lemma retriever_invoke_Inr:
  assumes "heap w ! docs dataStore = Docs ds"
    "array_map (score_doc RegExp (keywords_of question)) ds = Inr scored"
  shows "retriever_invoke RegExp dataStore question w =
     (let sorted = sort_key (\<lambda>s. - int (score s)) scored;
          top6 = take 6 sorted;
          contents = map (\<lambda>s. pageContent (doc s)) top6
      in (Inr (join ''\<newline>\<newline>'' contents),
          w\<lparr>heap := heap w @ [Scores sorted, Scores top6, Texts contents]\<rparr>))"
  using assms by (simp add: retriever_invoke_return)

lemma retriever_invoke_debug_Inr:
  assumes "heap w ! docs dataStore = Docs ds"
    "array_map (score_doc RegExp (keywords_of question)) ds = Inr scored"
  shows "retriever_invoke_debug RegExp dataStore question w =
     (let sorted = sort_key (\<lambda>s. - int (score s)) scored;
          top6 = take 6 sorted;
          contents = map (\<lambda>s. pageContent (doc s)) top6
      in (Inr (join ''\<newline>\<newline>'' contents),
          w\<lparr>heap := heap w @ [Scores sorted, Scores top6, Scores top6, Texts contents]\<rparr>))"
  using assms by (simp add: retriever_invoke_debug_return)

lemma retriever_invoke_frame:
  shows "take (length (heap w)) (heap (snd (retriever_invoke RegExp dataStore question w))) = heap w"
    and "sent (snd (retriever_invoke RegExp dataStore question w)) = sent w"
    and "take (length (heap w)) (heap (snd (retriever_invoke_debug RegExp dataStore question w))) = heap w"
    and "sent (snd (retriever_invoke_debug RegExp dataStore question w)) = sent w"
proof -
  have "take (length (heap w)) (heap (snd (retriever_invoke RegExp dataStore question w))) = heap w
      \<and> sent (snd (retriever_invoke RegExp dataStore question w)) = sent w
      \<and> take (length (heap w)) (heap (snd (retriever_invoke_debug RegExp dataStore question w))) = heap w
      \<and> sent (snd (retriever_invoke_debug RegExp dataStore question w)) = sent w"
  proof (cases "docs_map (score_doc RegExp (keywords_of question)) (heap w ! docs dataStore)")
    case (Inl e)
    then show ?thesis by (simp add: retriever_invoke_raise)
  next
    case (Inr scored)
    then show ?thesis
      by (simp add: retriever_invoke_return retriever_invoke_debug_return Let_def)
  qed
  then show "take (length (heap w)) (heap (snd (retriever_invoke RegExp dataStore question w))) = heap w"
    and "sent (snd (retriever_invoke RegExp dataStore question w)) = sent w"
    and "take (length (heap w)) (heap (snd (retriever_invoke_debug RegExp dataStore question w))) = heap w"
    and "sent (snd (retriever_invoke_debug RegExp dataStore question w)) = sent w"
    by simp_all
qed

lemma sorted_map_const: "sorted (map (\<lambda>x. c) xs)"
  by (induction xs) simp_all

lemma llm_invoke_total: "\<exists>answer. fst (llm_invoke dataStore input w) = Inr answer"
proof -
  obtain a where "extractAnswer input = Inr a" using extractAnswer_total by blast
  then show ?thesis by (simp add: llm_invoke_def split: option.splits)
qed

lemma llm_invoke_debug_falls_back:
  assumes "hf dataStore = Some textGeneration"
    and "textGeneration \<lparr>model = ''gpt2'', inputs = promptText, max_new_tokens = 50,
                          temperature = 7 / 10\<rparr> = Inl error"
    and "error_message error = Inr printed"
  shows "fst (llm_invoke_debug dataStore promptText w) = extractAnswer_debug promptText"
    and "\<exists>answer. fst (llm_invoke_debug dataStore promptText w) = Inr answer"
proof -
  show 1: "fst (llm_invoke_debug dataStore promptText w) = extractAnswer_debug promptText"
    using assms by (simp add: llm_invoke_debug_def Let_def)
  from extractAnswer_debug_total[of promptText] 1
  show "\<exists>answer. fst (llm_invoke_debug dataStore promptText w) = Inr answer" by simp
qed



text \<open>
  Whenever \<open>retriever.invoke\<close> returns on a store of documents, what it returns is the
  contents of at most 6 chunks of the store, joined by a blank line, in descending order of
  their scores.
\<close>

lemma retriever_invoke_top6:
  assumes "heap w ! docs dataStore = Docs ds"
    and "array_map (score_doc RegExp (keywords_of question)) ds = Inr scored"
  shows "\<exists>sel. fst (retriever_invoke RegExp dataStore question w)
                 = Inr (join ''\<newline>\<newline>'' (map (\<lambda>s. pageContent (doc s)) sel))
             \<and> fst (retriever_invoke_debug RegExp dataStore question w)
                 = Inr (join ''\<newline>\<newline>'' (map (\<lambda>s. pageContent (doc s)) sel))
             \<and> length sel \<le> 6
             \<and> doc ` set sel \<subseteq> set ds
             \<and> (\<forall>s\<in>set sel. score_doc RegExp (keywords_of question) (doc s) = Inr s)
             \<and> sorted_wrt (\<lambda>a b. score b \<le> score a) sel"
proof -
  let ?f = "\<lambda>s. - int (score s)"
  let ?sel = "take 6 (sort_key ?f scored)"
  have sub: "set ?sel \<subseteq> set scored" using set_take_subset[of 6 "sort_key ?f scored"] by simp
  have "doc ` set scored = set ds" using array_map_Inr_doc[OF assms(2)] by (metis set_map)
  with sub have 1: "doc ` set ?sel \<subseteq> set ds" by blast
  have 2: "\<forall>s\<in>set ?sel. score_doc RegExp (keywords_of question) (doc s) = Inr s"
    using array_map_Inr_score[OF assms(2)] sub by blast
  have "sorted (map ?f (sort_key ?f scored))" by (rule sorted_sort_key)
  then have "sorted_wrt (\<lambda>a b. ?f a \<le> ?f b) (sort_key ?f scored)" by (simp only: sorted_map)
  then have "sorted_wrt (\<lambda>a b. ?f a \<le> ?f b) ?sel" by (rule sorted_wrt_take)
  then have 3: "sorted_wrt (\<lambda>a b. score b \<le> score a) ?sel" by simp
  have 4: "length ?sel \<le> 6" by simp
  show ?thesis
    apply (rule exI[of _ ?sel])
    using 1 2 3 4
    by (simp add: retriever_invoke_Inr[OF assms] retriever_invoke_debug_Inr[OF assms] Let_def)
qed


lemma retriever_rejects_cpp:
  "retriever_invoke sample_RegExp \<lparr>docs = 0, hf = h\<rparr> ''c++'' \<lparr>heap = [Docs [d]], sent = []\<rparr>
     = (Inl (SyntaxError ''Invalid regular expression: /c++/g: Nothing to repeat''),
        \<lparr>heap = [Docs [d]], sent = []\<rparr>)"
  "retriever_invoke_debug sample_RegExp \<lparr>docs = 0, hf = h\<rparr> ''c++'' \<lparr>heap = [Docs [d]], sent = []\<rparr>
     = (Inl (SyntaxError ''Invalid regular expression: /c++/g: Nothing to repeat''),
        \<lparr>heap = [Docs [d]], sent = []\<rparr>)"
proof -
  have k: "keywords_of ''c++'' = [''c++'']" by code_simp
  have "parse_pattern ''c++'' = Rejected ''Nothing to repeat''" by code_simp
  then have r: "sample_RegExp ''c++''
           = Inl (SyntaxError ''Invalid regular expression: /c++/g: Nothing to repeat'')"
    by (simp add: sample_RegExp_def)
  have m: "array_map (score_doc sample_RegExp (keywords_of ''c++'')) [d]
           = Inl (SyntaxError ''Invalid regular expression: /c++/g: Nothing to repeat'')"
    unfolding k using r by (rule array_map_first_keyword_rejected)
  have ds: "heap \<lparr>heap = [Docs [d]], sent = []\<rparr> ! docs \<lparr>docs = 0, hf = h\<rparr> = Docs [d]" by simp
  show "retriever_invoke sample_RegExp \<lparr>docs = 0, hf = h\<rparr> ''c++'' \<lparr>heap = [Docs [d]], sent = []\<rparr>
     = (Inl (SyntaxError ''Invalid regular expression: /c++/g: Nothing to repeat''),
        \<lparr>heap = [Docs [d]], sent = []\<rparr>)"
    by (rule retriever_invoke_Inl(1)[OF ds m])
  show "retriever_invoke_debug sample_RegExp \<lparr>docs = 0, hf = h\<rparr> ''c++'' \<lparr>heap = [Docs [d]], sent = []\<rparr>
     = (Inl (SyntaxError ''Invalid regular expression: /c++/g: Nothing to repeat''),
        \<lparr>heap = [Docs [d]], sent = []\<rparr>)"
    by (rule retriever_invoke_Inl(2)[OF ds m])
qed

section \<open>Properties\<close>

text \<open>
  C1 (as amended). With a credential configured, \<open>llm.invoke\<close> of the debug variant sends
  one request to the text-generation service, with the whole prompt text as its input; when
  the call succeeds with a non-empty generated text the adapter returns that text as it is,
  and when the result has no generated text or an empty one it returns the prompt text.
  \<open>llm.invoke\<close> of the main variant sends no request: it returns what \<open>extractAnswer\<close>
  returns on the prompt text.
\<close>

theorem llm_invoke_service_call:
  "hf dataStore = Some textGeneration \<longrightarrow>
     sent (snd (llm_invoke_debug dataStore promptText w))
       = sent w @ [\<lparr>model = ''gpt2'', inputs = promptText, max_new_tokens = 50,
                     temperature = 7 / 10\<rparr>] \<and>
     (\<forall>g. textGeneration \<lparr>model = ''gpt2'', inputs = promptText, max_new_tokens = 50,
                            temperature = 7 / 10\<rparr> = Inr (Some g) \<and> g \<noteq> []
          \<longrightarrow> fst (llm_invoke_debug dataStore promptText w) = Inr g) \<and>
     (textGeneration \<lparr>model = ''gpt2'', inputs = promptText, max_new_tokens = 50,
                       temperature = 7 / 10\<rparr> = Inr None \<or>
      textGeneration \<lparr>model = ''gpt2'', inputs = promptText, max_new_tokens = 50,
                       temperature = 7 / 10\<rparr> = Inr (Some [])
          \<longrightarrow> fst (llm_invoke_debug dataStore promptText w) = Inr promptText) \<and>
     sent (snd (llm_invoke dataStore promptText w)) = sent w \<and>
     fst (llm_invoke dataStore promptText w) = extractAnswer promptText"
proof
  assume h: "hf dataStore = Some textGeneration"
  let ?req = "\<lparr>model = ''gpt2'', inputs = promptText, max_new_tokens = 50, temperature = 7 / 10\<rparr>"
  have 1: "sent (snd (llm_invoke_debug dataStore promptText w)) = sent w @ [?req]"
    using h by (simp add: llm_invoke_debug_def Let_def split: sum.splits)
  have 2: "fst (llm_invoke_debug dataStore promptText w) = Inr g"
    if "textGeneration ?req = Inr (Some g) \<and> g \<noteq> []" for g
    using h that by (simp add: llm_invoke_debug_def Let_def)
  have 3: "fst (llm_invoke_debug dataStore promptText w) = Inr promptText"
    if "textGeneration ?req = Inr None \<or> textGeneration ?req = Inr (Some [])"
    using h that by (auto simp: llm_invoke_debug_def Let_def)
  have 4: "sent (snd (llm_invoke dataStore promptText w)) = sent w"
    using h by (simp add: llm_invoke_def Let_def split: sum.splits)
  have 5: "fst (llm_invoke dataStore promptText w) = extractAnswer promptText"
    using h by (simp add: llm_invoke_def Let_def split: sum.splits)
  from 1 2 3 4 5
  show "sent (snd (llm_invoke_debug dataStore promptText w)) = sent w @ [?req] \<and>
     (\<forall>g. textGeneration ?req = Inr (Some g) \<and> g \<noteq> []
          \<longrightarrow> fst (llm_invoke_debug dataStore promptText w) = Inr g) \<and>
     (textGeneration ?req = Inr None \<or> textGeneration ?req = Inr (Some [])
          \<longrightarrow> fst (llm_invoke_debug dataStore promptText w) = Inr promptText) \<and>
     sent (snd (llm_invoke dataStore promptText w)) = sent w \<and>
     fst (llm_invoke dataStore promptText w) = extractAnswer promptText"
    by blast
qed

theorem llm_invoke_service_call_witness:
  "sent (snd (llm_invoke_debug \<lparr>docs = 0, hf = Some (\<lambda>r. Inr (Some ''Paris''))\<rparr> ''capital?''
                \<lparr>heap = [], sent = []\<rparr>))
     = [\<lparr>model = ''gpt2'', inputs = ''capital?'', max_new_tokens = 50, temperature = 7 / 10\<rparr>]
   \<and> fst (llm_invoke_debug \<lparr>docs = 0, hf = Some (\<lambda>r. Inr (Some ''Paris''))\<rparr> ''capital?''
            \<lparr>heap = [], sent = []\<rparr>) = Inr ''Paris''
   \<and> fst (llm_invoke_debug \<lparr>docs = 0, hf = Some (\<lambda>r. Inr None)\<rparr> ''capital?''
            \<lparr>heap = [], sent = []\<rparr>) = Inr ''capital?''
   \<and> sent (snd (llm_invoke \<lparr>docs = 0, hf = Some (\<lambda>r. Inr (Some ''Paris''))\<rparr> ''capital?''
                \<lparr>heap = [], sent = []\<rparr>)) = []
   \<and> fst (llm_invoke \<lparr>docs = 0, hf = Some (\<lambda>r. Inr (Some ''Paris''))\<rparr> ''capital?''
            \<lparr>heap = [], sent = []\<rparr>) = Inr ''capital?''"
proof -
  have e: "extractAnswer ''capital?'' = Inr ''capital?''" by code_simp
  from llm_invoke_service_call[of "\<lparr>docs = 0, hf = Some (\<lambda>r. Inr (Some ''Paris''))\<rparr>"
      "\<lambda>r. Inr (Some ''Paris'')" "''capital?''" "\<lparr>heap = [], sent = []\<rparr>"]
    llm_invoke_service_call[of "\<lparr>docs = 0, hf = Some (\<lambda>r. Inr None)\<rparr>"
      "\<lambda>r. Inr None" "''capital?''" "\<lparr>heap = [], sent = []\<rparr>"] e
  show ?thesis by simp
qed


text \<open>
  Without the amendment the statement fails: in the debug variant a call that succeeds with
  the empty text makes the adapter return the prompt, and in the main variant no call is
  issued and the answer is the extractor's, whatever the service would have generated.
\<close>

theorem llm_invoke_not_verbatim:
  "fst (llm_invoke_debug \<lparr>docs = 0, hf = Some (\<lambda>r. Inr (Some []))\<rparr> ''capital?''
          \<lparr>heap = [], sent = []\<rparr>) = Inr ''capital?''
   \<and> sent (snd (llm_invoke \<lparr>docs = 0, hf = Some (\<lambda>r. Inr (Some ''Paris''))\<rparr> ''capital?''
                \<lparr>heap = [], sent = []\<rparr>)) = []
   \<and> fst (llm_invoke \<lparr>docs = 0, hf = Some (\<lambda>r. Inr (Some ''Paris''))\<rparr> ''capital?''
            \<lparr>heap = [], sent = []\<rparr>) = Inr ''capital?''"
proof -
  have e: "extractAnswer ''capital?'' = Inr ''capital?''" by code_simp
  then show ?thesis by (simp add: llm_invoke_debug_def llm_invoke_def Let_def)
qed


text \<open>
  C2. The retriever does not return on every question: when the Chunk Store is not empty
  and the engine rejects the first keyword of the question (as the runtime rejects \<open>c++\<close>),
  \<open>retriever.invoke\<close> raises the engine's error, in both variants.
\<close>

theorem retriever_invoke_raises_on_rejected_keyword:
  "docs dataStore < length (heap w) \<and> heap w ! docs dataStore = Docs (d # ds) \<and>
   keywords_of question = kw # kws \<and> RegExp kw = Inl e
   \<longrightarrow> retriever_invoke RegExp dataStore question w = (Inl e, w) \<and>
       retriever_invoke_debug RegExp dataStore question w = (Inl e, w)"
proof (intro impI)
  assume a: "docs dataStore < length (heap w) \<and> heap w ! docs dataStore = Docs (d # ds) \<and>
    keywords_of question = kw # kws \<and> RegExp kw = Inl e"
  then have "RegExp kw = Inl e" by simp
  then have "array_map (score_doc RegExp (kw # kws)) (d # ds) = Inl e"
    by (rule array_map_first_keyword_rejected)
  with a have "array_map (score_doc RegExp (keywords_of question)) (d # ds) = Inl e"
    by simp
  with a show "retriever_invoke RegExp dataStore question w = (Inl e, w) \<and>
       retriever_invoke_debug RegExp dataStore question w = (Inl e, w)"
    by (simp add: retriever_invoke_Inl)
qed

text \<open>With the sample engine, the question \<open>c++\<close> and a store of one chunk:\<close>

theorem retriever_invoke_raises_witness:
  "retriever_invoke sample_RegExp \<lparr>docs = 0, hf = None\<rparr> ''c++''
     \<lparr>heap = [Docs [\<lparr>pageContent = ''c++ code'', metadata = []\<rparr>]], sent = []\<rparr>
   = (Inl (SyntaxError ''Invalid regular expression: /c++/g: Nothing to repeat''),
      \<lparr>heap = [Docs [\<lparr>pageContent = ''c++ code'', metadata = []\<rparr>]], sent = []\<rparr>)
   \<and> retriever_invoke_debug sample_RegExp \<lparr>docs = 0, hf = None\<rparr> ''c++''
     \<lparr>heap = [Docs [\<lparr>pageContent = ''c++ code'', metadata = []\<rparr>]], sent = []\<rparr>
   = (Inl (SyntaxError ''Invalid regular expression: /c++/g: Nothing to repeat''),
      \<lparr>heap = [Docs [\<lparr>pageContent = ''c++ code'', metadata = []\<rparr>]], sent = []\<rparr>)"
proof -
  have k: "keywords_of ''c++'' = [''c++'']" by code_simp
  have "parse_pattern ''c++'' = Rejected ''Nothing to repeat''" by code_simp
  then have r: "sample_RegExp ''c++''
           = Inl (SyntaxError ''Invalid regular expression: /c++/g: Nothing to repeat'')"
    by (simp add: sample_RegExp_def)
  from retriever_invoke_raises_on_rejected_keyword[of "\<lparr>docs = 0, hf = None\<rparr>"
      "\<lparr>heap = [Docs [\<lparr>pageContent = ''c++ code'', metadata = []\<rparr>]], sent = []\<rparr>"
      "\<lparr>pageContent = ''c++ code'', metadata = []\<rparr>" "[]" "''c++''" "''c++''" "[]"
      sample_RegExp "SyntaxError ''Invalid regular expression: /c++/g: Nothing to repeat''"] k r
  show ?thesis by simp
qed


text \<open>
  C3. \<open>chain.invoke\<close> returns a string on every question and never raises: when the
  retriever raises, the result is \<open>Error: \<close> followed by the message of the error, and
  otherwise it is the answer of the generator adapter. The adapter of the main variant does
  not raise; when the adapter of the debug variant raises, the result is \<open>Error: \<close> followed
  by the message of that error. Both variants.
\<close>

theorem chain_invoke_total:
  "(\<exists>answer. fst (chain_invoke RegExp dataStore question w) = Inr answer) \<and>
   (\<forall>e. fst (retriever_invoke RegExp dataStore question w) = Inl e \<longrightarrow>
        fst (chain_invoke RegExp dataStore question w) = Inr (''Error: '' @ message e)) \<and>
   (\<forall>context. fst (retriever_invoke RegExp dataStore question w) = Inr context \<longrightarrow>
        fst (chain_invoke RegExp dataStore question w)
        = fst (llm_invoke dataStore (fullPrompt context question)
                 (snd (retriever_invoke RegExp dataStore question w)))) \<and>
   (\<exists>answer. fst (chain_invoke_debug RegExp dataStore question w) = Inr answer) \<and>
   (\<forall>e. fst (retriever_invoke_debug RegExp dataStore question w) = Inl e \<longrightarrow>
        fst (chain_invoke_debug RegExp dataStore question w) = Inr (''Error: '' @ message e)) \<and>
   (\<forall>context. fst (retriever_invoke_debug RegExp dataStore question w) = Inr context \<longrightarrow>
        fst (chain_invoke_debug RegExp dataStore question w)
        = (case fst (llm_invoke_debug dataStore (fullPrompt context question)
                       (snd (retriever_invoke_debug RegExp dataStore question w))) of
             Inr answer \<Rightarrow> Inr answer
           | Inl e \<Rightarrow> Inr (''Error: '' @ message e)))"
proof -
  have main: "(\<exists>answer. fst (chain_invoke RegExp dataStore question w) = Inr answer) \<and>
   (\<forall>e. fst (retriever_invoke RegExp dataStore question w) = Inl e \<longrightarrow>
        fst (chain_invoke RegExp dataStore question w) = Inr (''Error: '' @ message e)) \<and>
   (\<forall>context. fst (retriever_invoke RegExp dataStore question w) = Inr context \<longrightarrow>
        fst (chain_invoke RegExp dataStore question w)
        = fst (llm_invoke dataStore (fullPrompt context question)
                 (snd (retriever_invoke RegExp dataStore question w))))"
  proof (cases "retriever_invoke RegExp dataStore question w")
    case (Pair r w1)
    show ?thesis
    proof (cases r)
      case (Inl e)
      with Pair show ?thesis by (simp add: chain_invoke_def chain_try_def)
    next
      case (Inr c)
      obtain a where a: "fst (llm_invoke dataStore (fullPrompt c question) w1) = Inr a"
        using llm_invoke_total by blast
      then obtain w2 where "llm_invoke dataStore (fullPrompt c question) w1 = (Inr a, w2)"
        by (cases "llm_invoke dataStore (fullPrompt c question) w1") simp
      with Pair Inr show ?thesis by (simp add: chain_invoke_def chain_try_def)
    qed
  qed
  have debug: "(\<exists>answer. fst (chain_invoke_debug RegExp dataStore question w) = Inr answer) \<and>
   (\<forall>e. fst (retriever_invoke_debug RegExp dataStore question w) = Inl e \<longrightarrow>
        fst (chain_invoke_debug RegExp dataStore question w) = Inr (''Error: '' @ message e)) \<and>
   (\<forall>context. fst (retriever_invoke_debug RegExp dataStore question w) = Inr context \<longrightarrow>
        fst (chain_invoke_debug RegExp dataStore question w)
        = (case fst (llm_invoke_debug dataStore (fullPrompt context question)
                       (snd (retriever_invoke_debug RegExp dataStore question w))) of
             Inr answer \<Rightarrow> Inr answer
           | Inl e \<Rightarrow> Inr (''Error: '' @ message e)))"
  proof (cases "retriever_invoke_debug RegExp dataStore question w")
    case (Pair r w1)
    show ?thesis
    proof (cases r)
      case (Inl e)
      with Pair show ?thesis by (simp add: chain_invoke_debug_def chain_try_debug_def)
    next
      case (Inr c)
      obtain r2 w2 where
        l: "llm_invoke_debug dataStore (fullPrompt c question) w1 = (r2, w2)"
        by (cases "llm_invoke_debug dataStore (fullPrompt c question) w1") simp
      show ?thesis
      proof (cases r2)
        case (Inl e2)
        with Pair Inr l show ?thesis by (simp add: chain_invoke_debug_def chain_try_debug_def)
      next
        case (Inr a)
        with Pair \<open>r = Inr c\<close> l show ?thesis
          by (simp add: chain_invoke_debug_def chain_try_debug_def)
      qed
    qed
  qed
  from main debug show ?thesis by simp
qed

theorem chain_invoke_total_witness:
  "fst (chain_invoke sample_RegExp \<lparr>docs = 0, hf = None\<rparr> ''c++''
         \<lparr>heap = [Docs [\<lparr>pageContent = ''c++ code'', metadata = []\<rparr>]], sent = []\<rparr>)
     = Inr ''Error: Invalid regular expression: /c++/g: Nothing to repeat''
   \<and> fst (chain_invoke_debug sample_RegExp \<lparr>docs = 0, hf = None\<rparr> ''c++''
         \<lparr>heap = [Docs [\<lparr>pageContent = ''c++ code'', metadata = []\<rparr>]], sent = []\<rparr>)
     = Inr ''Error: Invalid regular expression: /c++/g: Nothing to repeat''
   \<and> fst (chain_invoke sample_RegExp \<lparr>docs = 0, hf = None\<rparr> ''code?''
         \<lparr>heap = [Docs [\<lparr>pageContent = ''c++ code'', metadata = []\<rparr>]], sent = []\<rparr>)
     = Inr ''Unable to generate answer - HF_API_KEY not set''
   \<and> fst (chain_invoke_debug sample_RegExp
           \<lparr>docs = 0, hf = Some (\<lambda>r. Inr (Some ''It is C++''))\<rparr> ''code?''
         \<lparr>heap = [Docs [\<lparr>pageContent = ''c++ code'', metadata = []\<rparr>]], sent = []\<rparr>)
     = Inr ''It is C++''
   \<and> fst (chain_invoke_debug sample_RegExp
           \<lparr>docs = 0, hf = Some (\<lambda>r. Inl Thrown_null)\<rparr> ''code?''
         \<lparr>heap = [Docs [\<lparr>pageContent = ''c++ code'', metadata = []\<rparr>]], sent = []\<rparr>)
     = Inr ''Error: Cannot read properties of null (reading 'message')''"
proof -
  let ?ds = "\<lparr>docs = 0, hf = None\<rparr>"
  let ?dt = "\<lparr>docs = 0, hf = Some (\<lambda>r. Inr (Some ''It is C++''))\<rparr>"
  let ?dn = "\<lparr>docs = 0, hf = Some (\<lambda>r. Inl Thrown_null)\<rparr>"
  let ?w = "\<lparr>heap = [Docs [\<lparr>pageContent = ''c++ code'', metadata = []\<rparr>]], sent = []\<rparr>"
  let ?e = "SyntaxError ''Invalid regular expression: /c++/g: Nothing to repeat''"
  have 1: "fst (retriever_invoke sample_RegExp ?ds ''c++'' ?w) = Inl ?e"
    "fst (retriever_invoke_debug sample_RegExp ?ds ''c++'' ?w) = Inl ?e"
    by (simp_all add: retriever_rejects_cpp)
  have 2: "fst (retriever_invoke sample_RegExp ?ds ''code?'' ?w) = Inr ''c++ code''"
    "fst (retriever_invoke_debug sample_RegExp ?dt ''code?'' ?w) = Inr ''c++ code''"
    "fst (retriever_invoke_debug sample_RegExp ?dn ''code?'' ?w) = Inr ''c++ code''"
    by code_simp+
  have 3: "fst (llm_invoke ?ds p w') = Inr ''Unable to generate answer - HF_API_KEY not set''"
    for p w' by (simp add: llm_invoke_def unavailable_def)
  have 4: "fst (llm_invoke_debug ?dt p w') = Inr ''It is C++''"
    for p w' by (simp add: llm_invoke_debug_def Let_def)
  have 5: "fst (llm_invoke_debug ?dn p w')
             = Inl (TypeError ''Cannot read properties of null (reading 'message')'')"
    for p w' by (simp add: llm_invoke_debug_def Let_def)
  from chain_invoke_total[of sample_RegExp ?ds "''c++''" ?w]
       chain_invoke_total[of sample_RegExp ?ds "''code?''" ?w]
       chain_invoke_total[of sample_RegExp ?dt "''code?''" ?w]
       chain_invoke_total[of sample_RegExp ?dn "''code?''" ?w] 1 2 3 4 5
  show ?thesis by simp
qed

text \<open>
  C4. On the prompt assembled from the context \<open>Navdeep Singh\<close> and the portfolio-name
  question, the extractor searches the lower-cased context, so the text it returns is
  \<open>navdeep singh\<close>, not the name as the context writes it.
\<close>

theorem extractAnswer_name_is_lowercased:
  "fullPrompt ''Navdeep Singh'' ''name of the person whose portfolio is this?''
   = ''Based on the following context, answer the question with a direct and exact answer. Be concise.\<newline>\<newline>Context:\<newline>Navdeep Singh\<newline>\<newline>Question: name of the person whose portfolio is this?\<newline>\<newline>Answer (direct answer only):''
   \<and> extractAnswer ''Based on the following context, answer the question with a direct and exact answer. Be concise.\<newline>\<newline>Context:\<newline>Navdeep Singh\<newline>\<newline>Question: name of the person whose portfolio is this?\<newline>\<newline>Answer (direct answer only):''
   = Inr ''navdeep singh''"
  by code_simp

text \<open>
  C5 (as amended). On a prompt with a well-formed block (text without the markers, then
  \<open>Context:\<close> and a line feed, a non-empty context that holds neither marker, a blank line,
  \<open>Question: \<close>, a non-empty question without line terminators, a line feed), the two
  patterns of \<open>extractAnswer\<close> capture exactly the context and the question, and its
  question and context fields are these in lower case. A field whose marker does not occur
  in the input is the empty string, and \<open>extractAnswer\<close> returns on every input.
\<close>

theorem extractAnswer_fields_are_lowercased:
  "(\<not> sublist ''Context:\<newline>'' pre \<and> \<not> sublist ''Question: '' pre \<and>
    ctx \<noteq> [] \<and> \<not> sublist ''\<newline>\<newline>Question:'' ctx \<and> \<not> sublist ''Question: '' ctx \<and>
    q \<noteq> [] \<and> (\<forall>x\<in>set q. \<not> is_line_terminator x) \<and>
    prompt = pre @ ''Context:\<newline>'' @ ctx @ ''\<newline>\<newline>Question: '' @ q @ ''\<newline>'' @ post \<longrightarrow>
      (\<exists>m. search False context_re prompt = Some m \<and> group1 m = Some ctx) \<and>
      (\<exists>m. search False question_re prompt = Some m \<and> group1 m = Some q) \<and>
      context_field prompt = Inr (toLowerCase ctx) \<and>
      question_field prompt = Inr (toLowerCase q))
   \<and> (\<not> js_includes input ''Question: '' \<longrightarrow> question_field input = Inr [])
   \<and> (\<not> js_includes input ''Context:\<newline>'' \<or> \<not> js_includes input ''\<newline>\<newline>Question:''
        \<longrightarrow> context_field input = Inr [])
   \<and> (\<exists>answer. extractAnswer input = Inr answer)"
proof (intro conjI impI)
  assume a: "\<not> sublist ''Context:\<newline>'' pre \<and> \<not> sublist ''Question: '' pre \<and>
    ctx \<noteq> [] \<and> \<not> sublist ''\<newline>\<newline>Question:'' ctx \<and> \<not> sublist ''Question: '' ctx \<and>
    q \<noteq> [] \<and> (\<forall>x\<in>set q. \<not> is_line_terminator x) \<and>
    prompt = pre @ ''Context:\<newline>'' @ ctx @ ''\<newline>\<newline>Question: '' @ q @ ''\<newline>'' @ post"
  then have p: "prompt = pre @ ''Context:\<newline>'' @ ctx @ ''\<newline>\<newline>Question: '' @ q @ ''\<newline>'' @ post"
    by (elim conjE)
  from a have h: "\<not> sublist ''Context:\<newline>'' pre" "\<not> sublist ''Question: '' pre"
    "ctx \<noteq> []" "\<not> sublist ''\<newline>\<newline>Question:'' ctx" "\<not> sublist ''Question: '' ctx"
    "q \<noteq> []" "\<forall>x\<in>set q. \<not> is_line_terminator x"
    by blast+
  show "\<exists>m. search False context_re prompt = Some m \<and> group1 m = Some ctx"
    unfolding p by (rule fields_wellformed(3)[OF h])
  show "\<exists>m. search False question_re prompt = Some m \<and> group1 m = Some q"
    unfolding p by (rule fields_wellformed(4)[OF h])
  show "context_field prompt = Inr (toLowerCase ctx)"
    unfolding p by (rule fields_wellformed(1)[OF h])
  show "question_field prompt = Inr (toLowerCase q)"
    unfolding p by (rule fields_wellformed(2)[OF h])
next
  assume "\<not> js_includes input ''Question: ''"
  then show "question_field input = Inr []"
    unfolding js_includes_def by (rule question_field_absent)
next
  assume "\<not> js_includes input ''Context:\<newline>'' \<or> \<not> js_includes input ''\<newline>\<newline>Question:''"
  then show "context_field input = Inr []"
    unfolding js_includes_def by (rule context_field_absent)
next
  show "\<exists>answer. extractAnswer input = Inr answer" by (rule extractAnswer_total)
qed

theorem extractAnswer_fields_witness:
  "(\<exists>m. search False context_re (fullPrompt ''Navdeep Singh'' ''Who is this?'') = Some m
        \<and> group1 m = Some ''Navdeep Singh'')
   \<and> (\<exists>m. search False question_re (fullPrompt ''Navdeep Singh'' ''Who is this?'') = Some m
        \<and> group1 m = Some ''Who is this?'')
   \<and> context_field (fullPrompt ''Navdeep Singh'' ''Who is this?'') = Inr ''navdeep singh''
   \<and> question_field (fullPrompt ''Navdeep Singh'' ''Who is this?'') = Inr ''who is this?''
   \<and> question_field ''Question:Who?'' = Inr []
   \<and> context_field ''Question:Who?'' = Inr []
   \<and> (\<exists>answer. extractAnswer ''Question:Who?'' = Inr answer)"
proof -
  let ?pre = "''Based on the following context, answer the question with a direct and exact answer. Be concise.\<newline>\<newline>''"
  have h: "\<not> sublist ''Context:\<newline>'' ?pre" "\<not> sublist ''Question: '' ?pre"
    "''Navdeep Singh'' \<noteq> []" "\<not> sublist ''\<newline>\<newline>Question:'' ''Navdeep Singh''"
    "\<not> sublist ''Question: '' ''Navdeep Singh''" "''Who is this?'' \<noteq> []"
    "\<forall>x\<in>set ''Who is this?''. \<not> is_line_terminator x"
    "\<not> js_includes ''Question:Who?'' ''Question: ''"
    "\<not> js_includes ''Question:Who?'' ''Context:\<newline>''"
    by code_simp+
  have p: "fullPrompt ''Navdeep Singh'' ''Who is this?''
           = ?pre @ ''Context:\<newline>'' @ ''Navdeep Singh'' @ ''\<newline>\<newline>Question: '' @ ''Who is this?''
             @ ''\<newline>'' @ ''\<newline>Answer (direct answer only):''"
    by code_simp
  have l: "toLowerCase ''Navdeep Singh'' = ''navdeep singh''"
    "toLowerCase ''Who is this?'' = ''who is this?''"
    by code_simp+
  from extractAnswer_fields_are_lowercased[of ?pre "''Navdeep Singh''" "''Who is this?''"
      "fullPrompt ''Navdeep Singh'' ''Who is this?''" "''\<newline>Answer (direct answer only):''"
      "''Question:Who?''"] h p l
  show ?thesis by simp
qed

text \<open>
  The fields are not the substrings themselves: capital letters come back in lower case.
\<close>

theorem question_field_not_verbatim:
  "question_field ''Context:\<newline>Navdeep Singh\<newline>\<newline>Question: Who is this?\<newline>'' = Inr ''who is this?''
   \<and> context_field ''Context:\<newline>Navdeep Singh\<newline>\<newline>Question: Who is this?\<newline>'' = Inr ''navdeep singh''
   \<and> question_field ''Context:\<newline>Navdeep Singh\<newline>\<newline>Question: Who is this?\<newline>'' \<noteq> Inr ''Who is this?''"
  by code_simp





text \<open>
  C7. When the parsed question holds the triggers of rule (a) (\<open>name\<close> and \<open>portfolio\<close>) and
  of rule (b) (\<open>experience\<close> and \<open>year\<close>), \<open>extractAnswer\<close> returns the answer of rule (a),
  and that answer is never the answer of rule (b).
\<close>

theorem extractAnswer_name_rule_first:
  "question_field input = Inr question \<and> context_field input = Inr context \<and>
   js_includes question ''name'' \<and> js_includes question ''portfolio'' \<and>
   js_includes question ''experience'' \<and> js_includes question ''year''
   \<longrightarrow> extractAnswer input = Inr (name_answer context) \<and>
       extractAnswer input \<noteq> Inr (experience_answer context)"
  by (simp add: extractAnswer_def name_answer_neq_experience_answer)

theorem extractAnswer_name_rule_first_witness:
  "extractAnswer ''Context:\<newline>Navdeep has 5 years of experience\<newline>\<newline>Question: name the years of experience in this portfolio\<newline>''
     = Inr ''Navdeep Singh''
   \<and> experience_answer ''navdeep has 5 years of experience'' = ''5 years''"
proof -
  let ?input = "''Context:\<newline>Navdeep has 5 years of experience\<newline>\<newline>Question: name the years of experience in this portfolio\<newline>''"
  let ?q = "''name the years of experience in this portfolio''"
  let ?c = "''navdeep has 5 years of experience''"
  have h: "question_field ?input = Inr ?q" "context_field ?input = Inr ?c"
    "js_includes ?q ''name''" "js_includes ?q ''portfolio''"
    "js_includes ?q ''experience''" "js_includes ?q ''year''"
    by code_simp+
  have e: "name_answer ?c = ''Navdeep Singh''" "experience_answer ?c = ''5 years''"
    by code_simp+
  from extractAnswer_name_rule_first[of ?input ?q ?c] h e show ?thesis by simp
qed


text \<open>
  C8. When every lower-cased whitespace token of the question has length at most 2, the
  keyword list is empty, every chunk scores 0 and \<open>retriever.invoke\<close> returns the
  contents of the first 6 chunks in store order, joined by a blank line; on the empty Chunk
  Store it returns the empty string for every question. Both variants.
\<close>

theorem retriever_invoke_no_keywords:
  "docs dataStore < length (heap w) \<and> heap w ! docs dataStore = Docs ds \<longrightarrow>
     ((\<forall>t\<in>set (split_ws (toLowerCase question)). length t \<le> 2) \<longrightarrow>
        keywords_of question = [] \<and>
        array_map (score_doc RegExp (keywords_of question)) ds
          = Inr (map (\<lambda>d. \<lparr>doc = d, score = 0\<rparr>) ds) \<and>
        fst (retriever_invoke RegExp dataStore question w)
          = Inr (join ''\<newline>\<newline>'' (map pageContent (take 6 ds))) \<and>
        fst (retriever_invoke_debug RegExp dataStore question w)
          = Inr (join ''\<newline>\<newline>'' (map pageContent (take 6 ds))))
     \<and> (ds = [] \<longrightarrow>
          fst (retriever_invoke RegExp dataStore question w) = Inr [] \<and>
          fst (retriever_invoke_debug RegExp dataStore question w) = Inr [])"
proof (intro impI conjI)
  assume a: "docs dataStore < length (heap w) \<and> heap w ! docs dataStore = Docs ds"
  then have ds: "heap w ! docs dataStore = Docs ds" by simp
  {
    assume "\<forall>t\<in>set (split_ws (toLowerCase question)). length t \<le> 2"
    then have "filter (\<lambda>w. length w > 2) (split_ws (toLowerCase question)) = []"
      by (auto simp: filter_empty_conv)
    then show k: "keywords_of question = []" by (simp add: keywords_of_def)
    then show m: "array_map (score_doc RegExp (keywords_of question)) ds
          = Inr (map (\<lambda>d. \<lparr>doc = d, score = 0\<rparr>) ds)"
      by (simp add: array_map_no_keywords)
    let ?mk = "\<lambda>d. \<lparr>doc = d, score = 0\<rparr>"
    have "sorted (map (\<lambda>s. - int (score s)) (map ?mk ds))"
      by (simp add: comp_def sorted_map_const)
    then have s: "sort_key (\<lambda>s. - int (score s)) (map ?mk ds) = map ?mk ds"
      by (rule sort_key_id_if_sorted)
    have c: "map (\<lambda>s. pageContent (doc s)) (take 6 (map ?mk ds)) = map pageContent (take 6 ds)"
      by (simp add: take_map comp_def)
    show "fst (retriever_invoke RegExp dataStore question w)
          = Inr (join ''\<newline>\<newline>'' (map pageContent (take 6 ds)))"
      by (simp add: retriever_invoke_Inr[OF ds m] Let_def s c)
    show "fst (retriever_invoke_debug RegExp dataStore question w)
          = Inr (join ''\<newline>\<newline>'' (map pageContent (take 6 ds)))"
      by (simp add: retriever_invoke_debug_Inr[OF ds m] Let_def s c)
  }
  {
    assume e: "ds = []"
    then have m: "array_map (score_doc RegExp (keywords_of question)) ds = Inr []" by simp
    show "fst (retriever_invoke RegExp dataStore question w) = Inr []"
      by (simp add: retriever_invoke_Inr[OF ds m] Let_def)
    show "fst (retriever_invoke_debug RegExp dataStore question w) = Inr []"
      by (simp add: retriever_invoke_debug_Inr[OF ds m] Let_def)
  }
qed


theorem retriever_invoke_no_keywords_witness:
  "keywords_of ''Is it'' = []
   \<and> fst (retriever_invoke sample_RegExp \<lparr>docs = 0, hf = None\<rparr> ''Is it''
        \<lparr>heap = [Docs [\<lparr>pageContent = ''README'', metadata = []\<rparr>,
                        \<lparr>pageContent = ''index.html'', metadata = []\<rparr>]], sent = []\<rparr>)
     = Inr ''README\<newline>\<newline>index.html''
   \<and> fst (retriever_invoke_debug sample_RegExp \<lparr>docs = 0, hf = None\<rparr> ''Is it''
        \<lparr>heap = [Docs [\<lparr>pageContent = ''README'', metadata = []\<rparr>,
                        \<lparr>pageContent = ''index.html'', metadata = []\<rparr>]], sent = []\<rparr>)
     = Inr ''README\<newline>\<newline>index.html''
   \<and> fst (retriever_invoke sample_RegExp \<lparr>docs = 0, hf = None\<rparr> ''what is c++''
        \<lparr>heap = [Docs []], sent = []\<rparr>) = Inr []
   \<and> fst (retriever_invoke_debug sample_RegExp \<lparr>docs = 0, hf = None\<rparr> ''what is c++''
        \<lparr>heap = [Docs []], sent = []\<rparr>) = Inr []"
proof -
  have t: "\<forall>t\<in>set (split_ws (toLowerCase ''Is it'')). length t \<le> 2" by code_simp
  from retriever_invoke_no_keywords[of "\<lparr>docs = 0, hf = None\<rparr>"
      "\<lparr>heap = [Docs [\<lparr>pageContent = ''README'', metadata = []\<rparr>,
                      \<lparr>pageContent = ''index.html'', metadata = []\<rparr>]], sent = []\<rparr>"
      "[\<lparr>pageContent = ''README'', metadata = []\<rparr>, \<lparr>pageContent = ''index.html'', metadata = []\<rparr>]"
      "''Is it''" sample_RegExp] t
  have 1: "keywords_of ''Is it'' = []
   \<and> fst (retriever_invoke sample_RegExp \<lparr>docs = 0, hf = None\<rparr> ''Is it''
        \<lparr>heap = [Docs [\<lparr>pageContent = ''README'', metadata = []\<rparr>,
                        \<lparr>pageContent = ''index.html'', metadata = []\<rparr>]], sent = []\<rparr>)
     = Inr ''README\<newline>\<newline>index.html''
   \<and> fst (retriever_invoke_debug sample_RegExp \<lparr>docs = 0, hf = None\<rparr> ''Is it''
        \<lparr>heap = [Docs [\<lparr>pageContent = ''README'', metadata = []\<rparr>,
                        \<lparr>pageContent = ''index.html'', metadata = []\<rparr>]], sent = []\<rparr>)
     = Inr ''README\<newline>\<newline>index.html''"
    by simp
  from retriever_invoke_no_keywords[of "\<lparr>docs = 0, hf = None\<rparr>"
      "\<lparr>heap = [Docs []], sent = []\<rparr>" "[]" "''what is c++''" sample_RegExp]
  have 2: "fst (retriever_invoke sample_RegExp \<lparr>docs = 0, hf = None\<rparr> ''what is c++''
        \<lparr>heap = [Docs []], sent = []\<rparr>) = Inr []
   \<and> fst (retriever_invoke_debug sample_RegExp \<lparr>docs = 0, hf = None\<rparr> ''what is c++''
        \<lparr>heap = [Docs []], sent = []\<rparr>) = Inr []"
    by simp
  from 1 2 show ?thesis by simp
qed


text \<open>
  C9. \<open>retriever.invoke\<close> leaves the Chunk Store as it was: after the call the array at
  \<open>dataStore.docs\<close> holds what it held before, and so does every array that existed before
  the call (the arrays the call creates are new ones, and the one it sorts is one of them).
  Both variants.
\<close>

theorem retriever_invoke_store_unchanged:
  "docs dataStore < length (heap w) \<longrightarrow>
     heap (snd (retriever_invoke RegExp dataStore question w)) ! docs dataStore
       = heap w ! docs dataStore \<and>
     take (length (heap w)) (heap (snd (retriever_invoke RegExp dataStore question w))) = heap w \<and>
     heap (snd (retriever_invoke_debug RegExp dataStore question w)) ! docs dataStore
       = heap w ! docs dataStore \<and>
     take (length (heap w)) (heap (snd (retriever_invoke_debug RegExp dataStore question w)))
       = heap w"
proof
  assume lt: "docs dataStore < length (heap w)"
  have nth: "h ! docs dataStore = heap w ! docs dataStore" if "take (length (heap w)) h = heap w"
    for h
  proof -
    from lt have "take (length (heap w)) h ! docs dataStore = h ! docs dataStore" by simp
    with that show ?thesis by simp
  qed
  note f = retriever_invoke_frame[where w = w and RegExp = RegExp and dataStore = dataStore
      and question = question]
  from f(1) f(3) nth[OF f(1)] nth[OF f(3)]
  show "heap (snd (retriever_invoke RegExp dataStore question w)) ! docs dataStore
       = heap w ! docs dataStore \<and>
     take (length (heap w)) (heap (snd (retriever_invoke RegExp dataStore question w))) = heap w \<and>
     heap (snd (retriever_invoke_debug RegExp dataStore question w)) ! docs dataStore
       = heap w ! docs dataStore \<and>
     take (length (heap w)) (heap (snd (retriever_invoke_debug RegExp dataStore question w)))
       = heap w"
    by simp
qed


theorem retriever_invoke_store_unchanged_witness:
  "heap (snd (retriever_invoke sample_RegExp \<lparr>docs = 0, hf = None\<rparr> ''whose portfolio?''
        \<lparr>heap = [Docs [\<lparr>pageContent = ''README'', metadata = []\<rparr>,
                        \<lparr>pageContent = ''my portfolio'', metadata = []\<rparr>]], sent = []\<rparr>)) ! 0
     = Docs [\<lparr>pageContent = ''README'', metadata = []\<rparr>,
             \<lparr>pageContent = ''my portfolio'', metadata = []\<rparr>]
   \<and> heap (snd (retriever_invoke_debug sample_RegExp \<lparr>docs = 0, hf = None\<rparr> ''whose portfolio?''
        \<lparr>heap = [Docs [\<lparr>pageContent = ''README'', metadata = []\<rparr>,
                        \<lparr>pageContent = ''my portfolio'', metadata = []\<rparr>]], sent = []\<rparr>)) ! 0
     = Docs [\<lparr>pageContent = ''README'', metadata = []\<rparr>,
             \<lparr>pageContent = ''my portfolio'', metadata = []\<rparr>]"
  using retriever_invoke_store_unchanged[of "\<lparr>docs = 0, hf = None\<rparr>"
      "\<lparr>heap = [Docs [\<lparr>pageContent = ''README'', metadata = []\<rparr>,
                      \<lparr>pageContent = ''my portfolio'', metadata = []\<rparr>]], sent = []\<rparr>"
      sample_RegExp "''whose portfolio?''"]
  by simp


text \<open>
  C10. The extractor of the debug variant returns what the extractor of the main variant
  returns, on every input.
\<close>

theorem extractAnswer_debug_eq: "extractAnswer_debug input = extractAnswer input"
  unfolding extractAnswer_debug_def extractAnswer_def question_field_def context_field_def
    name_answer_def experience_answer_def skill_answer_def Let_def
  by (rule refl)

end
